theory Spec2Isabelle
  imports Main "HOL-Library.Word" "HOL-Library.Signed_Division"
begin

unbundle bit_operations_syntax

section \<open>The ni editor: data model\<close>

text \<open>
  The embedding follows \<^verbatim>\<open>src/main.c\<close>. The global \<^verbatim>\<open>struct editorConfig E\<close> is
  passed explicitly and returned updated. A C \<^verbatim>\<open>int\<close> that indexes the row store or
  the screen (sizes, cursor, offsets) is an \<^typ>\<open>int\<close>; the two counters whose
  machine arithmetic decides what the program does are 32-bit words: the length of
  the command buffer, which \<^verbatim>\<open>abDelete\<close> compares against a \<^verbatim>\<open>size_t\<close>, and the
  repeat count, which grows tenfold with every digit typed. A \<^verbatim>\<open>size_t\<close> is a
  64-bit word. An access outside an array or through a pointer that is null or
  freed has no defined result in C: such a step returns \<open>None\<close> (or the outcome
  \<open>Undefined\<close>), so a theorem holds of the runs that C defines. The one read that
  is followed past the end of its block is that of \<^verbatim>\<open>%s\<close> on the command buffer,
  which stores no NUL: the bytes that it finds there are a parameter of the step.
  The fields \<^verbatim>\<open>statusmsg_time\<close> (wall clock) and \<^verbatim>\<open>orig_termios\<close> (terminal
  attributes) are read by no function modelled here and are left out.
\<close>

subsection \<open>Defines\<close>

abbreviation NI_TAB_STOP :: int where "NI_TAB_STOP \<equiv> 4"

definition CTRL_KEY :: "int \<Rightarrow> int" where
  "CTRL_KEY k = k AND 0x1f"

text \<open>A character constant of the source, as the \<^verbatim>\<open>int\<close> that C gives it.\<close>

abbreviation K :: "char \<Rightarrow> int" where "K ch \<equiv> of_char ch"

abbreviation ESC :: char where "ESC \<equiv> CHR 0x1b"
abbreviation TAB :: char where "TAB \<equiv> CHR 0x09"
abbreviation NUL :: char where "NUL \<equiv> CHR 0x00"

text \<open>\<^verbatim>\<open>enum editorKeys\<close>: the values count up from 1000.\<close>

abbreviation ARROW_LEFT :: int where "ARROW_LEFT \<equiv> 1000"
abbreviation ARROW_RIGHT :: int where "ARROW_RIGHT \<equiv> 1001"
abbreviation ARROW_UP :: int where "ARROW_UP \<equiv> 1002"
abbreviation ARROW_DOWN :: int where "ARROW_DOWN \<equiv> 1003"
abbreviation DEL_KEY :: int where "DEL_KEY \<equiv> 1004"
abbreviation HOME_KEY :: int where "HOME_KEY \<equiv> 1005"
abbreviation END_KEY :: int where "END_KEY \<equiv> 1006"
abbreviation PAGE_UP :: int where "PAGE_UP \<equiv> 1007"
abbreviation PAGE_DOWN :: int where "PAGE_DOWN \<equiv> 1008"
abbreviation SPACE :: int where "SPACE \<equiv> 1009"

datatype editorModes = INSERT_MODE | NORMAL_MODE | COMMAND_MODE

subsection \<open>Dynamic string type\<close>

text \<open>
  The pointer \<^verbatim>\<open>ab->b\<close>: null, a live heap block with its bytes, or a block that
  has been given back to \<^verbatim>\<open>free\<close>.
\<close>

datatype bufptr = Null | Live "char list" | Freed

record abuf =
  b :: bufptr
  len :: "32 word"

abbreviation ABUF_INIT :: abuf where "ABUF_INIT \<equiv> \<lparr>b = Null, len = 0\<rparr>"

subsection \<open>Rows and the editor state\<close>

text \<open>
  \<open>chars\<close> and \<open>render\<close> hold the bytes before the terminating NUL that
  \<^verbatim>\<open>editorAppendRow\<close> and \<^verbatim>\<open>editorUpdateRow\<close> store; the field \<^verbatim>\<open>size\<close> is
  \<open>size_e\<close> here.
\<close>

record erow =
  size_e :: int
  rsize :: int
  chars :: "char list"
  render :: "char list"

record editorConfig =
  mode :: editorModes
  cmdbuf :: abuf
  cmdrep :: "32 word"
  cx :: int
  cy :: int
  rx :: int
  rowoff :: int
  coloff :: int
  screenrows :: int
  screencols :: int
  numrows :: int
  row :: "erow list"
  filename :: "string option"
  statusmsg :: string

text \<open>
  What one call leaves behind: the next state, the end of the process (the bytes
  written to the terminal on the way out and the exit status), or a step that C
  leaves undefined.
\<close>

datatype outcome = Continue editorConfig | Exited string int | Undefined

text \<open>\<^verbatim>\<open>E.row[i]\<close> and \<^verbatim>\<open>row->chars[j]\<close>; the block of \<open>chars\<close> ends with a NUL.\<close>

definition get_row :: "editorConfig \<Rightarrow> int \<Rightarrow> erow option" where
  "get_row E i = (if 0 \<le> i \<and> i < int (length (row E)) then Some (row E ! nat i) else None)"

definition row_char :: "erow \<Rightarrow> int \<Rightarrow> char option" where
  "row_char r j =
     (if 0 \<le> j \<and> j < int (length (chars r)) then Some (chars r ! nat j)
      else if j = int (length (chars r)) then Some NUL
      else None)"

section \<open>Terminal: reading a key\<close>

text \<open>
  One call of \<^verbatim>\<open>read(STDIN_FILENO, &c, 1)\<close> returns 1 with a byte, or returns 0
  when the tenth of a second has passed (or -1 with \<^verbatim>\<open>EAGAIN\<close>), or fails with
  another error. The input of the decoder is the list of these results in the order
  of the calls; after the end of the list every read times out.
\<close>

datatype read_result = Byte char | Nothing | Error

datatype key_result = Key int "read_result list" | Died | Blocked

text \<open>
  The \<^verbatim>\<open>int\<close> of a \<^verbatim>\<open>char\<close>: plain \<^verbatim>\<open>char\<close> is signed on the x86-64 targets that
  the includes of the source select.
\<close>

definition char_int :: "char \<Rightarrow> int" where
  "char_int ch = (if (of_char ch :: int) < 128 then of_char ch else of_char ch - 256)"

text \<open>The test \<^verbatim>\<open>seq[1] >= '0' && seq[1] <= '9'\<close>.\<close>

definition is_digit :: "char \<Rightarrow> bool" where
  "is_digit ch \<longleftrightarrow> K CHR ''0'' \<le> char_int ch \<and> char_int ch \<le> K CHR ''9''"

text \<open>A lookahead read: \<^verbatim>\<open>read(STDIN_FILENO, &seq[i], 1) != 1\<close> is \<open>None\<close>.\<close>

fun next_byte :: "read_result list \<Rightarrow> char option \<times> read_result list" where
  "next_byte [] = (None, [])"
| "next_byte (Byte ch # rs) = (Some ch, rs)"
| "next_byte (Nothing # rs) = (None, rs)"
| "next_byte (Error # rs) = (None, rs)"

definition read_escape :: "read_result list \<Rightarrow> key_result" where
  "read_escape rs =
     (case next_byte rs of
        (None, rs1) \<Rightarrow> Key (K ESC) rs1
      | (Some s0, rs1) \<Rightarrow>
          (case next_byte rs1 of
             (None, rs2) \<Rightarrow> Key (K ESC) rs2
           | (Some s1, rs2) \<Rightarrow>
               if s0 = CHR ''['' then
                 (if is_digit s1 then
                    (case next_byte rs2 of
                       (None, rs3) \<Rightarrow> Key (K ESC) rs3
                     | (Some s2, rs3) \<Rightarrow>
                         if s2 = CHR ''~'' then
                           (if s1 = CHR ''1'' then Key HOME_KEY rs3
                            else if s1 = CHR ''3'' then Key DEL_KEY rs3
                            else if s1 = CHR ''4'' then Key END_KEY rs3
                            else if s1 = CHR ''5'' then Key PAGE_UP rs3
                            else if s1 = CHR ''6'' then Key PAGE_DOWN rs3
                            else if s1 = CHR ''7'' then Key HOME_KEY rs3
                            else if s1 = CHR ''8'' then Key END_KEY rs3
                            else Key (K ESC) rs3)
                         else Key (K ESC) rs3)
                  else
                    (if s1 = CHR ''A'' then Key ARROW_UP rs2
                     else if s1 = CHR ''B'' then Key ARROW_DOWN rs2
                     else if s1 = CHR ''C'' then Key ARROW_RIGHT rs2
                     else if s1 = CHR ''D'' then Key ARROW_LEFT rs2
                     else if s1 = CHR ''H'' then Key HOME_KEY rs2
                     else if s1 = CHR ''F'' then Key END_KEY rs2
                     else Key (K ESC) rs2))
               else Key (K ESC) rs2))"

text \<open>
  \<^verbatim>\<open>editorReadKey\<close>. The first loop reads until a byte arrives; an error other than
  \<^verbatim>\<open>EAGAIN\<close> ends the process in \<^verbatim>\<open>die\<close>; while nothing arrives the call does not
  return (\<open>Blocked\<close>).
\<close>

fun editorReadKey :: "read_result list \<Rightarrow> key_result" where
  "editorReadKey [] = Blocked"
| "editorReadKey (Nothing # rs) = editorReadKey rs"
| "editorReadKey (Error # rs) = Died"
| "editorReadKey (Byte ch # rs) = (if ch = ESC then read_escape rs else Key (char_int ch) rs)"

section \<open>Row operations\<close>

text \<open>
  \<^verbatim>\<open>editorRowCxToRx\<close>: the loop \<^verbatim>\<open>for (j=0; j < cx; ++j)\<close> with its two variables.
  \<^verbatim>\<open>%\<close> is C's remainder, \<open>smod\<close>.
\<close>

function rx_loop :: "erow \<Rightarrow> int \<Rightarrow> int \<Rightarrow> int \<Rightarrow> int option" where
  "rx_loop r c j x =
     (if j < c then
        (case row_char r j of
           None \<Rightarrow> None
         | Some ch \<Rightarrow>
             rx_loop r c (j + 1)
               ((if ch = TAB then x + ((NI_TAB_STOP - 1) - (x smod NI_TAB_STOP)) else x) + 1))
      else Some x)"
  by pat_completeness auto
termination
  by (relation "measure (\<lambda>(r, c, j, x). nat (c - j))") auto

definition editorRowCxToRx :: "erow \<Rightarrow> int \<Rightarrow> int option" where
  "editorRowCxToRx r c = rx_loop r c 0 0"

text \<open>
  \<^verbatim>\<open>editorUpdateRow\<close>. The first loop counts the tabs to size the block; the second
  fills it, \<open>out\<close> being \<^verbatim>\<open>render[0..idx)\<close>; \<open>pad_tab\<close> is the inner
  \<^verbatim>\<open>while (idx % NI_TAB_STOP != 0)\<close>.
\<close>

function count_tabs :: "erow \<Rightarrow> int \<Rightarrow> int \<Rightarrow> int option" where
  "count_tabs r j tabs =
     (if j < size_e r then
        (case row_char r j of
           None \<Rightarrow> None
         | Some ch \<Rightarrow> count_tabs r (j + 1) (if ch = TAB then tabs + 1 else tabs))
      else Some tabs)"
  by pat_completeness auto
termination
  by (relation "measure (\<lambda>(r, j, tabs). nat (size_e r - j))") auto

function pad_tab :: "char list \<Rightarrow> char list" where
  "pad_tab out =
     (if int (length out) smod NI_TAB_STOP \<noteq> 0 then pad_tab (out @ [CHR '' '']) else out)"
  by pat_completeness auto
termination
proof (relation "measure (\<lambda>out. (4 - length out mod 4) mod 4)")
  show "wf (measure (\<lambda>out. (4 - length out mod 4) mod 4))" by simp
next
  fix out :: "char list"
  assume a: "int (length out) smod NI_TAB_STOP \<noteq> 0"
  have "int (length out) smod 4 = int (length out mod 4)"
    by (cases "out = []") (simp_all add: smod_int_alt_def zmod_int)
  with a have "length out mod 4 \<noteq> 0" by simp
  then show "(out @ [CHR '' ''], out) \<in> measure (\<lambda>out. (4 - length out mod 4) mod 4)"
    by (simp add: mod_Suc) presburger
qed

function render_loop :: "erow \<Rightarrow> int \<Rightarrow> char list \<Rightarrow> char list option" where
  "render_loop r j out =
     (if j < size_e r then
        (case row_char r j of
           None \<Rightarrow> None
         | Some ch \<Rightarrow>
             render_loop r (j + 1)
               (if ch = TAB then pad_tab (out @ [CHR '' '']) else out @ [ch]))
      else Some out)"
  by pat_completeness auto
termination
  by (relation "measure (\<lambda>(r, j, out). nat (size_e r - j))") auto

definition editorUpdateRow :: "erow \<Rightarrow> erow option" where
  "editorUpdateRow r =
     (case count_tabs r 0 0 of
        None \<Rightarrow> None
      | Some tabs \<Rightarrow>
          (case render_loop r 0 [] of
             None \<Rightarrow> None
           | Some out \<Rightarrow> Some (r\<lparr>render := out, rsize := int (length out)\<rparr>)))"

definition editorAppendRow :: "char list \<Rightarrow> editorConfig \<Rightarrow> editorConfig option" where
  "editorAppendRow s E =
     (case editorUpdateRow \<lparr>size_e = int (length s), rsize = 0, chars = s, render = []\<rparr> of
        None \<Rightarrow> None
      | Some r \<Rightarrow> Some (E\<lparr>row := row E @ [r], numrows := numrows E + 1\<rparr>))"

section \<open>Character classes\<close>

text \<open>
  \<^verbatim>\<open>isspace\<close>, \<^verbatim>\<open>ispunct\<close> and \<^verbatim>\<open>isprint\<close> of \<^verbatim>\<open><ctype.h>\<close> in the "C" locale (the
  program never calls \<^verbatim>\<open>setlocale\<close>): no byte above 127 is in any class. The
  first two are applied to bytes of a row. \<^verbatim>\<open>isprint\<close> is applied to the decoded key,
  an \<^verbatim>\<open>int\<close>; the library's tables end at 255, so it has no result for the key codes
  from 1000 on.
\<close>

definition isspace :: "char \<Rightarrow> bool" where
  "isspace ch = (let n = (of_char ch :: nat) in n = 32 \<or> (9 \<le> n \<and> n \<le> 13))"

definition ispunct :: "char \<Rightarrow> bool" where
  "ispunct ch =
     (let n = (of_char ch :: nat)
      in (33 \<le> n \<and> n \<le> 47) \<or> (58 \<le> n \<and> n \<le> 64) \<or> (91 \<le> n \<and> n \<le> 96) \<or> (123 \<le> n \<and> n \<le> 126))"

definition isprint :: "int \<Rightarrow> bool option" where
  "isprint c = (if - 128 \<le> c \<and> c \<le> 255 then Some (32 \<le> c \<and> c \<le> 126) else None)"

section \<open>Dynamic string methods\<close>

text \<open>
  \<^verbatim>\<open>abAppend\<close>. The flag \<open>ok\<close> is the allocator's answer: \<open>False\<close> is
  \<^verbatim>\<open>new == NULL\<close>, the early return. \<^verbatim>\<open>realloc\<close> keeps the old bytes and
  \<^verbatim>\<open>memcpy\<close> writes \<open>s\<close> at offset \<^verbatim>\<open>ab->len\<close>; the result is determined when
  that offset lies inside the old block (or the pointer was null and the offset 0).
  \<^verbatim>\<open>realloc\<close> of a freed block, and a copy to an offset outside the block, are
  undefined.
\<close>

definition abAppend :: "bool \<Rightarrow> abuf \<Rightarrow> char list \<Rightarrow> abuf option" where
  "abAppend ok ab s =
     (case b ab of
        Freed \<Rightarrow> None
      | p \<Rightarrow>
          if \<not> ok then Some ab
          else
            (let old = (case p of Live xs \<Rightarrow> xs | _ \<Rightarrow> [])
             in if 0 \<le> sint (len ab) \<and> sint (len ab) \<le> int (length old)
                then Some \<lparr>b = Live (take (nat (sint (len ab))) old @ s),
                           len = len ab + of_nat (length s)\<rparr>
                else None))"

text \<open>
  \<^verbatim>\<open>abDelete\<close>: \<^verbatim>\<open>if (ab->len - n > 0) ab->len -= n;\<close> with \<^verbatim>\<open>int len\<close> and
  \<^verbatim>\<open>size_t n\<close>. The usual arithmetic conversions turn \<^verbatim>\<open>ab->len\<close> into a
  \<^verbatim>\<open>size_t\<close> (\<open>scast\<close>), the difference and the comparison are unsigned, and the
  assignment converts the difference back to \<^verbatim>\<open>int\<close> (\<open>ucast\<close>, the low 32 bits).
\<close>

definition abDelete :: "abuf \<Rightarrow> 64 word \<Rightarrow> abuf" where
  "abDelete ab n =
     (if 0 < (scast (len ab) :: 64 word) - n
      then ab\<lparr>len := ucast ((scast (len ab) :: 64 word) - n)\<rparr>
      else ab)"

text \<open>
  \<^verbatim>\<open>abFree\<close> sets \<^verbatim>\<open>len\<close> to 0 and frees the block; it leaves the pointer as it
  is, so a live block becomes a freed one. \<^verbatim>\<open>free(NULL)\<close> does nothing; freeing a
  freed block is undefined.
\<close>

definition abFree :: "abuf \<Rightarrow> abuf option" where
  "abFree ab =
     (case b ab of
        Null \<Rightarrow> Some (ab\<lparr>len := 0\<rparr>)
      | Live xs \<Rightarrow> Some (ab\<lparr>len := 0, b := Freed\<rparr>)
      | Freed \<Rightarrow> None)"

section \<open>Exit, repeat count, command mode\<close>

text \<open>\<^verbatim>\<open>editorExit\<close> writes the two escape sequences and exits with status 0.\<close>

definition editorExit :: outcome where
  "editorExit = Exited ([ESC] @ ''[2J'' @ [ESC] @ ''[H'') 0"

definition editorNormalModeNumRep :: "int \<Rightarrow> editorConfig \<Rightarrow> editorConfig" where
  "editorNormalModeNumRep n E = E\<lparr>cmdrep := cmdrep E * 10 + word_of_int n\<rparr>"

text \<open>\<^verbatim>\<open>E.cmdbuf.b[j]\<close>, and the loop of \<^verbatim>\<open>editorCommandModeHandle\<close> over it.\<close>

definition cmd_byte :: "abuf \<Rightarrow> int \<Rightarrow> char option" where
  "cmd_byte ab j =
     (case b ab of
        Live xs \<Rightarrow> if 0 \<le> j \<and> j < int (length xs) then Some (xs ! nat j) else None
      | _ \<Rightarrow> None)"

function quit_loop :: "abuf \<Rightarrow> int \<Rightarrow> bool \<Rightarrow> bool option" where
  "quit_loop ab j quit =
     (if j < sint (len ab) then
        (case cmd_byte ab j of
           None \<Rightarrow> None
         | Some ch \<Rightarrow> quit_loop ab (j + 1) (if ch = CHR ''q'' then True else quit))
      else Some quit)"
  by pat_completeness auto
termination
  by (relation "measure (\<lambda>(ab, j, quit). nat (sint (len ab) - j))") auto

definition editorCommandModeHandle :: "editorConfig \<Rightarrow> outcome" where
  "editorCommandModeHandle E =
     (case quit_loop (cmdbuf E) 0 False of
        None \<Rightarrow> Undefined
      | Some quit \<Rightarrow> if quit then editorExit else Continue E)"

section \<open>Output: scrolling and the status message\<close>

definition editorScroll :: "editorConfig \<Rightarrow> editorConfig option" where
  "editorScroll E =
     (case (if cy E < numrows E
            then (case get_row E (cy E) of
                    None \<Rightarrow> None
                  | Some r \<Rightarrow> editorRowCxToRx r (cx E))
            else Some 0) of
        None \<Rightarrow> None
      | Some x \<Rightarrow>
          Some
            (let E1 = E\<lparr>rx := x\<rparr>;
                 E2 = (if cy E1 < rowoff E1 then E1\<lparr>rowoff := cy E1\<rparr> else E1);
                 E3 = (if cy E2 \<ge> rowoff E2 + screenrows E2
                       then E2\<lparr>rowoff := cy E2 - screenrows E2 + 1\<rparr> else E2);
                 E4 = (if rx E3 < coloff E3 then E3\<lparr>coloff := rx E3\<rparr> else E3)
             in if rx E4 \<ge> coloff E4 + screencols E4
                then E4\<lparr>coloff := rx E4 - screencols E4 + 1\<rparr> else E4))"

text \<open>
  \<^verbatim>\<open>editorSetStatusMsg\<close> takes the formatted text; \<^verbatim>\<open>vsnprintf\<close> keeps at most 79
  bytes of it in \<^verbatim>\<open>char statusmsg[80]\<close>.
\<close>

definition editorSetStatusMsg :: "string \<Rightarrow> editorConfig \<Rightarrow> editorConfig" where
  "editorSetStatusMsg s E = E\<lparr>statusmsg := take 79 s\<rparr>"

text \<open>
  What \<^verbatim>\<open>%s\<close> prints for \<^verbatim>\<open>E.cmdbuf.b\<close>: the bytes from the start of the block to
  the first NUL. \<^verbatim>\<open>abAppend\<close> stores no NUL, so the read runs on into the memory
  after the block; \<open>after\<close> is what lies there up to its first NUL.
\<close>

definition c_string :: "string \<Rightarrow> bufptr \<Rightarrow> string option" where
  "c_string after p =
     (case p of
        Live xs \<Rightarrow> Some (takeWhile (\<lambda>ch. ch \<noteq> NUL) (xs @ after))
      | _ \<Rightarrow> None)"

section \<open>Input: cursor movement\<close>

text \<open>
  The three scanning loops of the word motions, on the column \<^verbatim>\<open>E.cx\<close> of the row
  \<open>r\<close>. Each returns the column at which the loop stops. In the first two the
  \<^verbatim>\<open>E.cx++\<close> sits inside the condition, so the column has moved one past the byte
  that was tested, also when that byte ends the loop.
\<close>

function skip_nonspace :: "erow \<Rightarrow> int \<Rightarrow> int option" where
  "skip_nonspace r x =
     (if x < size_e r then
        (case row_char r x of
           None \<Rightarrow> None
         | Some ch \<Rightarrow> if \<not> isspace ch then skip_nonspace r (x + 1) else Some (x + 1))
      else Some x)"
  by pat_completeness auto
termination
  by (relation "measure (\<lambda>(r, x). nat (size_e r - x))") auto

function skip_word :: "erow \<Rightarrow> int \<Rightarrow> int option" where
  "skip_word r x =
     (if x < size_e r then
        (case row_char r x of
           None \<Rightarrow> None
         | Some ch \<Rightarrow>
             if \<not> isspace ch then
               (case row_char r (x + 1) of
                  None \<Rightarrow> None
                | Some ch' \<Rightarrow> if \<not> ispunct ch' then skip_word r (x + 1) else Some (x + 1))
             else Some (x + 1))
      else Some x)"
  by pat_completeness auto
termination
  by (relation "measure (\<lambda>(r, x). nat (size_e r - x))") auto

function skip_spaces :: "erow \<Rightarrow> int \<Rightarrow> int option" where
  "skip_spaces r x =
     (if x < size_e r then
        (case row_char r x of
           None \<Rightarrow> None
         | Some ch \<Rightarrow> if ch = CHR '' '' then skip_spaces r (x + 1) else Some x)
      else Some x)"
  by pat_completeness auto
termination
  by (relation "measure (\<lambda>(r, x). nat (size_e r - x))") auto

text \<open>
  The \<^verbatim>\<open>switch\<close> of \<^verbatim>\<open>editorMoveCursor\<close>. The pointer \<^verbatim>\<open>row\<close> is null when
  \<^verbatim>\<open>E.cy >= E.numrows\<close> and \<^verbatim>\<open>&E.row[E.cy]\<close> otherwise; it is read only where the
  source dereferences it.
\<close>

definition move_switch :: "int \<Rightarrow> editorConfig \<Rightarrow> editorConfig option" where
  "move_switch key E =
     (if key = K CHR ''k'' \<or> key = ARROW_UP then
        Some (if cy E \<noteq> 0 then E\<lparr>cy := cy E - 1\<rparr> else E)
      else if key = K CHR ''j'' \<or> key = ARROW_DOWN then
        Some (if cy E < numrows E then E\<lparr>cy := cy E + 1\<rparr> else E)
      else if key = K CHR ''h'' \<or> key = ARROW_LEFT then
        (if cx E \<noteq> 0 then Some (E\<lparr>cx := cx E - 1\<rparr>)
         else if cy E > 0 then
           (case get_row E (cy E - 1) of
              None \<Rightarrow> None
            | Some r \<Rightarrow> Some (E\<lparr>cy := cy E - 1, cx := size_e r\<rparr>))
         else Some E)
      else if key = K CHR ''l'' \<or> key = ARROW_RIGHT then
        (if cy E \<ge> numrows E then Some E
         else
           (case get_row E (cy E) of
              None \<Rightarrow> None
            | Some r \<Rightarrow>
                if cx E < size_e r then Some (E\<lparr>cx := cx E + 1\<rparr>)
                else if cx E = size_e r then Some (E\<lparr>cy := cy E + 1, cx := 0\<rparr>)
                else Some E))
      else if key = K CHR ''w'' \<or> key = K CHR ''W'' \<or> key = K CHR ''e'' \<or> key = K CHR ''E'' then
        (if cy E \<ge> numrows E then Some E
         else
           (case get_row E (cy E) of
              None \<Rightarrow> None
            | Some r \<Rightarrow>
                (case (if key = K CHR ''W'' \<or> key = K CHR ''E''
                       then skip_nonspace r (cx E) else skip_word r (cx E)) of
                   None \<Rightarrow> None
                 | Some x1 \<Rightarrow>
                     (case (if key = K CHR ''W'' \<or> key = K CHR ''w''
                            then skip_spaces r x1 else Some x1) of
                        None \<Rightarrow> None
                      | Some x2 \<Rightarrow>
                          Some (if x2 \<ge> size_e r then E\<lparr>cy := cy E + 1, cx := 0\<rparr>
                                else E\<lparr>cx := x2\<rparr>)))))
      else Some E)"

text \<open>The end of \<^verbatim>\<open>editorMoveCursor\<close>: snap the cursor to the end of the line.\<close>

definition snap_cursor :: "editorConfig \<Rightarrow> editorConfig option" where
  "snap_cursor E =
     (case (if cy E \<ge> numrows E then Some 0
            else (case get_row E (cy E) of None \<Rightarrow> None | Some r \<Rightarrow> Some (size_e r))) of
        None \<Rightarrow> None
      | Some rowlen \<Rightarrow> Some (if cx E > rowlen then E\<lparr>cx := rowlen\<rparr> else E))"

definition editorMoveCursor :: "int \<Rightarrow> editorConfig \<Rightarrow> editorConfig option" where
  "editorMoveCursor key E =
     (case move_switch key E of None \<Rightarrow> None | Some E' \<Rightarrow> snap_cursor E')"

text \<open>\<^verbatim>\<open>while (times--) editorMoveCursor(key);\<close> for a count of \<open>n\<close>.\<close>

primrec move_times :: "nat \<Rightarrow> int \<Rightarrow> editorConfig \<Rightarrow> editorConfig option" where
  "move_times 0 key E = Some E"
| "move_times (Suc n) key E =
     (case editorMoveCursor key E of None \<Rightarrow> None | Some E' \<Rightarrow> move_times n key E')"

section \<open>Input: the dispatcher\<close>

text \<open>
  What a keypress takes from outside the editor state besides the key: the
  allocator's answer to \<^verbatim>\<open>realloc\<close>, and the bytes that follow the command
  buffer's block in memory.
\<close>

record world =
  realloc_ok :: bool
  after_block :: string

definition lift :: "editorConfig option \<Rightarrow> outcome" where
  "lift r = (case r of None \<Rightarrow> Undefined | Some E \<Rightarrow> Continue E)"

text \<open>
  \<^verbatim>\<open>int times = E.screenrows; while (times--)\<close>: the number of rounds. A count
  below zero is decremented through the least \<^verbatim>\<open>int\<close>, wraps around and reaches 0
  after \<open>times + 2^32\<close> rounds.
\<close>

definition rounds :: "int \<Rightarrow> nat" where
  "rounds t = (if 0 \<le> t then nat t else nat (t + 2 ^ 32))"

text \<open>The \<^verbatim>\<open>switch\<close> of Normal mode.\<close>

definition normal_switch :: "int \<Rightarrow> editorConfig \<Rightarrow> outcome" where
  "normal_switch c E =
     (if c = K CHR ''i'' then Continue (E\<lparr>mode := INSERT_MODE\<rparr>)
      else if c = K CHR '':'' then Continue (editorSetStatusMsg '':'' (E\<lparr>mode := COMMAND_MODE\<rparr>))
      else if c = CTRL_KEY (K CHR ''q'') then editorExit
      else if c = K CHR ''0'' \<or> c = HOME_KEY then Continue (E\<lparr>cx := 0\<rparr>)
      else if c = K CHR ''$'' \<or> c = END_KEY then
        (if cy E < numrows E
         then (case get_row E (cy E) of
                 None \<Rightarrow> Undefined
               | Some r \<Rightarrow> Continue (E\<lparr>cx := size_e r\<rparr>))
         else Continue E)
      else if c = CTRL_KEY (K CHR ''u'') \<or> c = CTRL_KEY (K CHR ''d'') \<or> c = PAGE_UP \<or> c = PAGE_DOWN then
        (let E1 = (if c = PAGE_UP \<or> c = CTRL_KEY (K CHR ''u'') then E\<lparr>cy := rowoff E\<rparr>
                   else if c = PAGE_DOWN \<or> c = CTRL_KEY (K CHR ''d'') then
                     (let E' = E\<lparr>cy := rowoff E + screenrows E - 1\<rparr>
                      in if cy E' > numrows E' then E'\<lparr>cy := numrows E'\<rparr> else E')
                   else E)
         in lift (move_times (rounds (screenrows E1))
                    (if c = PAGE_DOWN \<or> c = CTRL_KEY (K CHR ''d'') then ARROW_DOWN else ARROW_UP) E1))
      else if c = K CHR ''k'' \<or> c = K CHR ''j'' \<or> c = K CHR ''l'' \<or> c = K CHR ''h''
            \<or> c = ARROW_UP \<or> c = ARROW_DOWN \<or> c = ARROW_LEFT \<or> c = ARROW_RIGHT
            \<or> c = K CHR ''w'' \<or> c = K CHR ''W'' \<or> c = K CHR ''b'' \<or> c = K CHR ''B''
            \<or> c = K CHR ''e'' \<or> c = K CHR ''E'' then
        lift (editorMoveCursor c E)
      else Continue E)"

text \<open>
  The first test of Normal mode, \<^verbatim>\<open>c <= '9' && (c >= '1' || (E.cmdrep != 0 && c >= '0'))\<close>:
  the key is taken as a digit of the repeat count.
\<close>

definition counts_digit :: "int \<Rightarrow> editorConfig \<Rightarrow> bool" where
  "counts_digit c E \<longleftrightarrow>
     c \<le> K CHR ''9'' \<and> (c \<ge> K CHR ''1'' \<or> (cmdrep E \<noteq> 0 \<and> c \<ge> K CHR ''0''))"

definition normal_mode_key :: "int \<Rightarrow> editorConfig \<Rightarrow> outcome" where
  "normal_mode_key c E =
     (if counts_digit c E
      then Continue (editorNormalModeNumRep (c - K CHR ''0'') E)
      else
        (case normal_switch c E of
           Continue E' \<Rightarrow> Continue (E'\<lparr>cmdrep := 0\<rparr>)
         | out \<Rightarrow> out))"

definition insert_mode_key :: "int \<Rightarrow> editorConfig \<Rightarrow> outcome" where
  "insert_mode_key c E =
     (if c = K ESC then Continue (E\<lparr>mode := NORMAL_MODE\<rparr>)
      else if c = ARROW_UP \<or> c = ARROW_DOWN \<or> c = ARROW_LEFT \<or> c = ARROW_RIGHT then
        lift (editorMoveCursor c E)
      else Continue E)"

text \<open>
  Leaving Command mode, shared by Enter and ESC: \<^verbatim>\<open>abFree\<close>, the empty status
  message, Normal mode.
\<close>

definition leave_command :: "editorConfig \<Rightarrow> outcome" where
  "leave_command E =
     (case abFree (cmdbuf E) of
        None \<Rightarrow> Undefined
      | Some ab \<Rightarrow> Continue ((editorSetStatusMsg [] (E\<lparr>cmdbuf := ab\<rparr>))\<lparr>mode := NORMAL_MODE\<rparr>))"

text \<open>
  In the default case \<^verbatim>\<open>(char *) &c\<close> is the low byte of the key (on a
  little-endian machine), \<open>char_of c\<close>.
\<close>

definition command_mode_key :: "world \<Rightarrow> int \<Rightarrow> editorConfig \<Rightarrow> outcome" where
  "command_mode_key w c E =
     (if c = 13 then
        (case editorCommandModeHandle E of
           Continue E' \<Rightarrow> leave_command E'
         | out \<Rightarrow> out)
      else if c = K ESC then leave_command E
      else if c = K CHR ''8'' then Continue (E\<lparr>cmdbuf := abDelete (cmdbuf E) 1\<rparr>)
      else
        (case isprint c of
           None \<Rightarrow> Undefined
         | Some False \<Rightarrow> Continue E
         | Some True \<Rightarrow>
             (case abAppend (realloc_ok w) (cmdbuf E) [char_of c] of
                None \<Rightarrow> Undefined
              | Some ab \<Rightarrow>
                  (case c_string (after_block w) (b ab) of
                     None \<Rightarrow> Undefined
                   | Some s \<Rightarrow> Continue (editorSetStatusMsg (CHR '':'' # s) (E\<lparr>cmdbuf := ab\<rparr>))))))"

text \<open>
  \<^verbatim>\<open>editorProcessKeypress\<close>, with the key that \<^verbatim>\<open>editorReadKey\<close> returned as the
  argument \<open>c\<close>. The last \<^verbatim>\<open>else\<close> of the source (a mode that is none of the three)
  has no state to run in.
\<close>

definition editorProcessKeypress :: "world \<Rightarrow> int \<Rightarrow> editorConfig \<Rightarrow> outcome" where
  "editorProcessKeypress w c E =
     (case mode E of
        NORMAL_MODE \<Rightarrow> normal_mode_key c E
      | INSERT_MODE \<Rightarrow> insert_mode_key c E
      | COMMAND_MODE \<Rightarrow> command_mode_key w c E)"

text \<open>
  The loop of \<^verbatim>\<open>main\<close> for a list of keys: \<^verbatim>\<open>editorRefreshScreen\<close> changes the
  state through \<^verbatim>\<open>editorScroll\<close> only (the frame it writes is not modelled), then
  the key is processed.
\<close>

fun main_loop :: "world \<Rightarrow> int list \<Rightarrow> editorConfig \<Rightarrow> outcome" where
  "main_loop w [] E = Continue E"
| "main_loop w (c # cs) E =
     (case editorScroll E of
        None \<Rightarrow> Undefined
      | Some E1 \<Rightarrow>
          (case editorProcessKeypress w c E1 of
             Continue E' \<Rightarrow> main_loop w cs E'
           | out \<Rightarrow> out))"

section \<open>Init\<close>

text \<open>
  \<^verbatim>\<open>initEditor\<close> for a window of \<open>rows\<close> by \<open>cols\<close>, as \<^verbatim>\<open>getWindowSize\<close> reports it.
  \<^verbatim>\<open>cmdrep\<close> is not assigned; \<open>E\<close> is a global and starts as zero.
\<close>

definition initEditor :: "int \<Rightarrow> int \<Rightarrow> editorConfig" where
  "initEditor rows cols =
     \<lparr>mode = NORMAL_MODE, cmdbuf = ABUF_INIT, cmdrep = 0,
      cx = 0, cy = 0, rx = 0, rowoff = 0, coloff = 0,
      screenrows = rows - 2, screencols = cols,
      numrows = 0, row = [], filename = None, statusmsg = []\<rparr>"

text \<open>
  \<^verbatim>\<open>die\<close> clears the screen, reports and exits with status 1 (what \<^verbatim>\<open>perror\<close>
  writes goes to the error stream and is not part of the outcome).
\<close>

definition die :: outcome where
  "die = Exited ([ESC] @ ''[2J'' @ [ESC] @ ''[H'') 1"

text \<open>
  \<^verbatim>\<open>editorOpen\<close> on the lines that \<^verbatim>\<open>getline\<close> delivers (\<open>None\<close>: the file could
  not be opened). Each line loses its trailing newline and carriage-return bytes
  and is appended as a row.
\<close>

function strip_eol :: "string \<Rightarrow> string" where
  "strip_eol s =
     (if length s > 0 \<and> (last s = CHR 0x0A \<or> last s = CHR 0x0D) then strip_eol (butlast s) else s)"
  by pat_completeness auto
termination
  by (relation "measure length") auto

fun append_lines :: "string list \<Rightarrow> editorConfig \<Rightarrow> editorConfig option" where
  "append_lines [] E = Some E"
| "append_lines (l # ls) E =
     (case editorAppendRow (strip_eol l) E of None \<Rightarrow> None | Some E' \<Rightarrow> append_lines ls E')"

definition editorOpen :: "string \<Rightarrow> string list option \<Rightarrow> editorConfig \<Rightarrow> outcome" where
  "editorOpen name file E =
     (case file of
        None \<Rightarrow> die
      | Some ls \<Rightarrow> lift (append_lines ls (E\<lparr>filename := Some name\<rparr>)))"

text \<open>
  The state in which \<^verbatim>\<open>main\<close> enters its loop: a window of \<open>rows\<close> by \<open>cols\<close>,
  the file of the command line if there is one, the status message "Welcome".
\<close>

definition main_start :: "int \<Rightarrow> int \<Rightarrow> (string \<times> string list option) option \<Rightarrow> outcome" where
  "main_start rows cols arg =
     (case (case arg of
              None \<Rightarrow> Continue (initEditor rows cols)
            | Some (name, file) \<Rightarrow> editorOpen name file (initEditor rows cols)) of
        Continue E \<Rightarrow> Continue (editorSetStatusMsg ''Welcome'' E)
      | out \<Rightarrow> out)"

section \<open>Notions of the specification\<close>

text \<open>
  The rule of the specification for \<open>cursorColToRenderCol\<close>, in its words: walking
  \<open>content[0..cx)\<close>, a tab consumes \<open>TAB_STOP - (width % TAB_STOP)\<close> cells and any
  other character exactly one.
\<close>

definition tab_step :: "int \<Rightarrow> char \<Rightarrow> int" where
  "tab_step w ch = w + (if ch = TAB then NI_TAB_STOP - w mod NI_TAB_STOP else 1)"

definition spec_cursorColToRenderCol :: "char list \<Rightarrow> int \<Rightarrow> int" where
  "spec_cursorColToRenderCol content c = foldl tab_step 0 (take (nat c) content)"

text \<open>
  The row store as \<^verbatim>\<open>editorAppendRow\<close> builds it: \<open>numrows\<close> counts the rows and
  each \<open>size\<close> counts the bytes of its row.
\<close>

definition rows_ok :: "editorConfig \<Rightarrow> bool" where
  "rows_ok E \<longleftrightarrow>
     numrows E = int (length (row E)) \<and> (\<forall>r \<in> set (row E). size_e r = int (length (chars r)))"

text \<open>
  The cursor bounds of the specification: \<open>0 \<le> cy \<le> numrows\<close>, and
  \<open>0 \<le> cx \<le>\<close> the length of row \<open>cy\<close>, or 0 when \<open>cy = numrows\<close>.
\<close>

definition cursor_inv :: "editorConfig \<Rightarrow> bool" where
  "cursor_inv E \<longleftrightarrow>
     0 \<le> cy E \<and> cy E \<le> numrows E \<and> 0 \<le> cx E
     \<and> cx E \<le> (if cy E < numrows E then size_e (row E ! nat (cy E)) else 0)"

text \<open>
  \<open>cursor_only E E'\<close>: the two states differ in \<open>cx\<close> and \<open>cy\<close> at most.
  \<open>cursor_weak\<close>: the row of the cursor is in bounds and the column is not negative;
  this is what \<^verbatim>\<open>editorMoveCursor\<close> needs on entry, its last step bounds the column.
\<close>

definition cursor_only :: "editorConfig \<Rightarrow> editorConfig \<Rightarrow> bool" where
  "cursor_only E E' \<longleftrightarrow> E' = E\<lparr>cx := cx E', cy := cy E'\<rparr>"

definition cursor_weak :: "editorConfig \<Rightarrow> bool" where
  "cursor_weak E \<longleftrightarrow> 0 \<le> cy E \<and> cy E \<le> numrows E \<and> 0 \<le> cx E"

text \<open>
  \<open>store_same E E'\<close>: the row store, the geometry of the screen, the offsets of the
  view and the file name are the same in both states.
\<close>

definition store_same :: "editorConfig \<Rightarrow> editorConfig \<Rightarrow> bool" where
  "store_same E E' \<longleftrightarrow>
     row E' = row E \<and> numrows E' = numrows E \<and> rowoff E' = rowoff E \<and> coloff E' = coloff E
     \<and> screenrows E' = screenrows E \<and> screencols E' = screencols E \<and> rx E' = rx E
     \<and> filename E' = filename E"

text \<open>The keys of two \<^verbatim>\<open>case\<close> groups of Normal mode.\<close>

definition page_key :: "int \<Rightarrow> bool" where
  "page_key c \<longleftrightarrow>
     c = CTRL_KEY (K CHR ''u'') \<or> c = CTRL_KEY (K CHR ''d'') \<or> c = PAGE_UP \<or> c = PAGE_DOWN"

definition motion_key :: "int \<Rightarrow> bool" where
  "motion_key c \<longleftrightarrow>
     c = K CHR ''k'' \<or> c = K CHR ''j'' \<or> c = K CHR ''l'' \<or> c = K CHR ''h''
     \<or> c = ARROW_UP \<or> c = ARROW_DOWN \<or> c = ARROW_LEFT \<or> c = ARROW_RIGHT
     \<or> c = K CHR ''w'' \<or> c = K CHR ''W'' \<or> c = K CHR ''b'' \<or> c = K CHR ''B''
     \<or> c = K CHR ''e'' \<or> c = K CHR ''E''"

definition arrow_key :: "int \<Rightarrow> bool" where
  "arrow_key c \<longleftrightarrow> c = ARROW_UP \<or> c = ARROW_DOWN \<or> c = ARROW_LEFT \<or> c = ARROW_RIGHT"

text \<open>
  The command buffer as \<^verbatim>\<open>abAppend\<close> leaves it: no block and length 0, or a live
  block that holds at least \<open>len\<close> bytes; \<open>contents\<close> are its first \<open>len\<close> bytes.
\<close>

definition buffer_ok :: "abuf \<Rightarrow> bool" where
  "buffer_ok ab \<longleftrightarrow>
     (case b ab of
        Null \<Rightarrow> len ab = 0
      | Live xs \<Rightarrow> 0 \<le> sint (len ab) \<and> sint (len ab) \<le> int (length xs)
      | Freed \<Rightarrow> False)"

definition contents :: "abuf \<Rightarrow> string" where
  "contents ab = (case b ab of Live xs \<Rightarrow> take (nat (sint (len ab))) xs | _ \<Rightarrow> [])"

section \<open>Example states\<close>

text \<open>The row \<^verbatim>\<open>"a\tb"\<close> as \<^verbatim>\<open>editorAppendRow\<close> sets it up before rendering.\<close>

abbreviation row_a_tab_b :: erow where
  "row_a_tab_b \<equiv> \<lparr>size_e = 3, rsize = 0, chars = [CHR ''a'', TAB, CHR ''b''], render = []\<rparr>"

text \<open>
  Thirty copies of the rendered row \<^verbatim>\<open>"a\tb"\<close> in a window of ten text rows, the
  cursor after the tab of row 25 and the view still at row 3.
\<close>

definition thirty_rows :: editorConfig where
  "thirty_rows =
     (initEditor 12 80)\<lparr>row := replicate 30 (row_a_tab_b\<lparr>render := ''a   b'', rsize := 5\<rparr>),
        numrows := 30, cx := 2, cy := 25, rowoff := 3\<rparr>"

text \<open>
  The states in which \<^verbatim>\<open>main\<close> enters its loop without a file, in a window of 24
  lines and in one of 2 lines, and with a file of three lines in a window of 24.
\<close>

definition no_file_24 :: editorConfig where
  "no_file_24 = editorSetStatusMsg ''Welcome'' (initEditor 24 80)"

definition no_file_2 :: editorConfig where
  "no_file_2 = editorSetStatusMsg ''Welcome'' (initEditor 2 80)"

abbreviation three_lines :: "string list" where
  "three_lines \<equiv> [''ab'' @ [CHR 0x0A], ''c'' @ [CHR 0x0D, CHR 0x0A], [TAB, CHR ''d'', CHR 0x0A]]"

definition three_rows :: editorConfig where
  "three_rows =
     (editorSetStatusMsg ''Welcome'' (initEditor 24 80))
       \<lparr>filename := Some ''f.txt'', numrows := 3,
        row := [\<lparr>size_e = 2, rsize = 2, chars = ''ab'', render = ''ab''\<rparr>,
                \<lparr>size_e = 1, rsize = 1, chars = ''c'', render = ''c''\<rparr>,
                \<lparr>size_e = 2, rsize = 5, chars = [TAB, CHR ''d''], render = ''    d''\<rparr>]\<rparr>"

text \<open>The file of three lines in a window of 3 lines: one text row.\<close>

definition one_text_row :: editorConfig where
  "one_text_row = three_rows\<lparr>screenrows := 1\<rparr>"

text \<open>An allocator that succeeds, and a zero byte right after the block.\<close>

abbreviation plain_world :: world where
  "plain_world \<equiv> \<lparr>realloc_ok = True, after_block = []\<rparr>"

text \<open>The state after \<open>:\<close> in a window of 24 lines without a file.\<close>

definition command_start :: editorConfig where
  "command_start = no_file_24\<lparr>mode := COMMAND_MODE, statusmsg := '':''\<rparr>"

declare rx_loop.simps [simp del] count_tabs.simps [simp del]
  pad_tab.simps [simp del] render_loop.simps [simp del]

declare skip_nonspace.simps [simp del] skip_word.simps [simp del]
  skip_spaces.simps [simp del] quit_loop.simps [simp del] strip_eol.simps [simp del]

section \<open>Tab expansion\<close>

lemma smod4_nonneg: "0 \<le> (x::int) \<Longrightarrow> x smod 4 = x mod 4"
  by (cases "x = 0") (simp_all add: smod_int_alt_def)

lemma tab_step_pos: "0 \<le> w \<Longrightarrow> 0 \<le> tab_step w ch"
  unfolding tab_step_def
  by (smt (verit) pos_mod_bound)

lemma foldl_tab_step_nonneg: "0 \<le> w \<Longrightarrow> 0 \<le> foldl tab_step w cs"
  by (induction cs arbitrary: w) (simp_all add: tab_step_pos)

lemma rx_loop_foldl:
  "0 \<le> j \<Longrightarrow> j \<le> c \<Longrightarrow> c \<le> int (length (chars r)) \<Longrightarrow> 0 \<le> x \<Longrightarrow>
   rx_loop r c j x = Some (foldl tab_step x (drop (nat j) (take (nat c) (chars r))))"
proof (induction r c j x rule: rx_loop.induct)
  case (1 r c j x)
  show ?case
  proof (cases "j < c")
    case False
    with 1 have "j = c" by simp
    then show ?thesis by (simp add: rx_loop.simps)
  next
    case True
    with 1 have rc: "row_char r j = Some (chars r ! nat j)"
      by (simp add: row_char_def)
    let ?ch = "chars r ! nat j"
    let ?x' = "(if ?ch = TAB then x + ((NI_TAB_STOP - 1) - (x smod NI_TAB_STOP)) else x) + 1"
    have x': "?x' = tab_step x ?ch"
      using 1(5) by (simp add: tab_step_def smod4_nonneg)
    have "0 \<le> ?x'" unfolding x' using 1(5) by (rule tab_step_pos)
    with 1 True rc have IH: "rx_loop r c (j + 1) ?x' =
        Some (foldl tab_step ?x' (drop (nat (j + 1)) (take (nat c) (chars r))))"
      by simp
    have nj: "nat j < length (take (nat c) (chars r))" using 1 True by simp
    have d: "drop (nat j) (take (nat c) (chars r)) =
        ?ch # drop (nat (j + 1)) (take (nat c) (chars r))"
      using Cons_nth_drop_Suc[OF nj] 1(2) True by (simp add: nat_add_distrib)
    show ?thesis
      using True rc IH unfolding d x'
      by (subst rx_loop.simps) (simp add: x')
  qed
qed

lemma editorRowCxToRx_foldl:
  "0 \<le> c \<Longrightarrow> c \<le> int (length (chars r)) \<Longrightarrow>
   editorRowCxToRx r c = Some (foldl tab_step 0 (take (nat c) (chars r)))"
  unfolding editorRowCxToRx_def using rx_loop_foldl[of 0 c r 0] by simp

lemma editorRowCxToRx_nonneg:
  "0 \<le> c \<Longrightarrow> c \<le> int (length (chars r)) \<Longrightarrow> \<exists>w. editorRowCxToRx r c = Some w \<and> 0 \<le> w"
  by (simp add: editorRowCxToRx_foldl foldl_tab_step_nonneg)

lemma editorRowCxToRx_step:
  assumes "0 \<le> c" "c < int (length (chars r))"
  shows "editorRowCxToRx r (c + 1) =
    Some (tab_step (foldl tab_step 0 (take (nat c) (chars r))) (chars r ! nat c))"
proof -
  have "take (nat (c + 1)) (chars r) = take (nat c) (chars r) @ [chars r ! nat c]"
    using assms by (simp add: nat_add_distrib take_Suc_conv_app_nth)
  then show ?thesis
    using assms by (simp add: editorRowCxToRx_foldl)
qed

lemma row_a_tab_b_rx1: "editorRowCxToRx row_a_tab_b 1 = Some 1"
  by (simp add: editorRowCxToRx_def rx_loop.simps row_char_def)

lemma row_a_tab_b_rx2: "editorRowCxToRx row_a_tab_b 2 = Some 4"
  by (simp add: editorRowCxToRx_def rx_loop.simps row_char_def smod4_nonneg)

lemma row_a_tab_b_render:
  "editorUpdateRow row_a_tab_b = Some (row_a_tab_b\<lparr>render := ''a   b'', rsize := 5\<rparr>)"
  by (simp add: editorUpdateRow_def count_tabs.simps render_loop.simps pad_tab.simps
      row_char_def smod4_nonneg)

text \<open>
  C1. For every row whose \<open>size\<close> counts its bytes and every \<open>cx\<close> in \<open>[0, size]\<close>,
  \<open>editorRowCxToRx\<close> returns the width that the rule of the specification
  accumulates over \<open>chars[0..cx)\<close>; one more byte adds \<open>TAB_STOP - (width % TAB_STOP)\<close>
  cells when it is a tab and exactly one cell otherwise. The row \<^verbatim>\<open>"a\tb"\<close> is
  rendered by \<open>editorUpdateRow\<close> as \<^verbatim>\<open>"a   b"\<close>, with \<open>b\<close> at rendered column 4, and
  \<open>editorRowCxToRx\<close> returns 1 at \<open>cx = 1\<close> and 4 at \<open>cx = 2\<close>.
\<close>

theorem tab_expansion_rule:
  "(size_e r = int (length (chars r)) \<longrightarrow> 0 \<le> c \<longrightarrow> c \<le> size_e r \<longrightarrow>
      editorRowCxToRx r c = Some (spec_cursorColToRenderCol (chars r) c)
      \<and> 0 \<le> spec_cursorColToRenderCol (chars r) c
      \<and> (c < size_e r \<longrightarrow>
           editorRowCxToRx r (c + 1) =
             Some (spec_cursorColToRenderCol (chars r) c +
               (if chars r ! nat c = TAB
                then NI_TAB_STOP - spec_cursorColToRenderCol (chars r) c mod NI_TAB_STOP
                else 1))))
   \<and> editorUpdateRow row_a_tab_b = Some (row_a_tab_b\<lparr>render := ''a   b'', rsize := 5\<rparr>)
   \<and> ''a   b'' ! 4 = CHR ''b''
   \<and> editorRowCxToRx row_a_tab_b 1 = Some 1
   \<and> editorRowCxToRx row_a_tab_b 2 = Some 4"
proof -
  have gen: "editorRowCxToRx r c = Some (spec_cursorColToRenderCol (chars r) c)
      \<and> 0 \<le> spec_cursorColToRenderCol (chars r) c
      \<and> (c < size_e r \<longrightarrow>
           editorRowCxToRx r (c + 1) =
             Some (spec_cursorColToRenderCol (chars r) c +
               (if chars r ! nat c = TAB
                then NI_TAB_STOP - spec_cursorColToRenderCol (chars r) c mod NI_TAB_STOP
                else 1)))"
    if wf: "size_e r = int (length (chars r))" and c: "0 \<le> c" "c \<le> size_e r"
  proof (intro conjI impI)
    show "editorRowCxToRx r c = Some (spec_cursorColToRenderCol (chars r) c)"
      using wf c by (simp add: editorRowCxToRx_foldl spec_cursorColToRenderCol_def)
    show "0 \<le> spec_cursorColToRenderCol (chars r) c"
      by (simp add: spec_cursorColToRenderCol_def foldl_tab_step_nonneg)
    show "editorRowCxToRx r (c + 1) =
             Some (spec_cursorColToRenderCol (chars r) c +
               (if chars r ! nat c = TAB
                then NI_TAB_STOP - spec_cursorColToRenderCol (chars r) c mod NI_TAB_STOP
                else 1))" if "c < size_e r"
      using editorRowCxToRx_step[of c r] wf c that
      by (simp add: spec_cursorColToRenderCol_def tab_step_def)
  qed
  have b4: "''a   b'' ! 4 = CHR ''b''" by simp
  show ?thesis
    using gen row_a_tab_b_render row_a_tab_b_rx1 row_a_tab_b_rx2 b4 by blast
qed

theorem tab_expansion_rule_witness:
  "size_e row_a_tab_b = int (length (chars row_a_tab_b)) \<and> (0::int) \<le> 1 \<and> (1::int) < size_e row_a_tab_b
   \<and> editorRowCxToRx row_a_tab_b (1 + 1) = Some (1 + (NI_TAB_STOP - 1 mod NI_TAB_STOP))
   \<and> spec_cursorColToRenderCol (chars row_a_tab_b) 1 = 1"
proof -
  have s: "spec_cursorColToRenderCol (chars row_a_tab_b) 1 = 1"
    by (simp add: spec_cursorColToRenderCol_def tab_step_def)
  show ?thesis
    using tab_expansion_rule [of row_a_tab_b 1] s by simp
qed

section \<open>The viewport\<close>

lemma get_row_ok:
  "rows_ok E \<Longrightarrow> 0 \<le> i \<Longrightarrow> i < numrows E \<Longrightarrow>
   get_row E i = Some (row E ! nat i)
   \<and> size_e (row E ! nat i) = int (length (chars (row E ! nat i)))"
  by (simp add: rows_ok_def get_row_def)

lemma editorScroll_defined:
  assumes "rows_ok E" "cursor_inv E"
  shows "\<exists>E'. editorScroll E = Some E'"
proof (cases "cy E < numrows E")
  case False
  then show ?thesis by (simp add: editorScroll_def)
next
  case True
  with assms have g: "get_row E (cy E) = Some (row E ! nat (cy E))"
    and sz: "size_e (row E ! nat (cy E)) = int (length (chars (row E ! nat (cy E))))"
    using get_row_ok[of E "cy E"] by (simp_all add: cursor_inv_def)
  from assms True sz have "0 \<le> cx E" "cx E \<le> int (length (chars (row E ! nat (cy E))))"
    by (simp_all add: cursor_inv_def)
  then obtain w where "editorRowCxToRx (row E ! nat (cy E)) (cx E) = Some w"
    using editorRowCxToRx_nonneg by blast
  with True g show ?thesis by (simp add: editorScroll_def)
qed

lemma editorScroll_SomeD:
  assumes "editorScroll E = Some E'"
  obtains x where "E' =
            (let E1 = E\<lparr>rx := x\<rparr>;
                 E2 = (if cy E1 < rowoff E1 then E1\<lparr>rowoff := cy E1\<rparr> else E1);
                 E3 = (if cy E2 \<ge> rowoff E2 + screenrows E2
                       then E2\<lparr>rowoff := cy E2 - screenrows E2 + 1\<rparr> else E2);
                 E4 = (if rx E3 < coloff E3 then E3\<lparr>coloff := rx E3\<rparr> else E3)
             in if rx E4 \<ge> coloff E4 + screencols E4
                then E4\<lparr>coloff := rx E4 - screencols E4 + 1\<rparr> else E4)"
proof (cases "if cy E < numrows E
            then (case get_row E (cy E) of
                    None \<Rightarrow> None
                  | Some r \<Rightarrow> editorRowCxToRx r (cx E))
            else Some 0")
  case None
  with assms show ?thesis unfolding editorScroll_def by simp
next
  case (Some x)
  with assms that[of x] show ?thesis unfolding editorScroll_def by simp
qed

lemma editorScroll_fields:
  assumes "editorScroll E = Some E'"
  shows "cy E' = cy E \<and> cx E' = cx E \<and> screenrows E' = screenrows E
    \<and> screencols E' = screencols E \<and> numrows E' = numrows E \<and> row E' = row E
    \<and> mode E' = mode E \<and> cmdbuf E' = cmdbuf E \<and> cmdrep E' = cmdrep E"
proof -
  from assms obtain x where E': "E' =
            (let E1 = E\<lparr>rx := x\<rparr>;
                 E2 = (if cy E1 < rowoff E1 then E1\<lparr>rowoff := cy E1\<rparr> else E1);
                 E3 = (if cy E2 \<ge> rowoff E2 + screenrows E2
                       then E2\<lparr>rowoff := cy E2 - screenrows E2 + 1\<rparr> else E2);
                 E4 = (if rx E3 < coloff E3 then E3\<lparr>coloff := rx E3\<rparr> else E3)
             in if rx E4 \<ge> coloff E4 + screencols E4
                then E4\<lparr>coloff := rx E4 - screencols E4 + 1\<rparr> else E4)"
    by (rule editorScroll_SomeD)
  show ?thesis unfolding E' by (simp add: Let_def)
qed

lemma editorScroll_window:
  assumes "1 \<le> screenrows E" "1 \<le> screencols E" "editorScroll E = Some E'"
  shows "rowoff E' \<le> cy E' \<and> cy E' < rowoff E' + screenrows E'
       \<and> coloff E' \<le> rx E' \<and> rx E' < coloff E' + screencols E'"
proof -
  from assms(3) obtain x where E': "E' =
            (let E1 = E\<lparr>rx := x\<rparr>;
                 E2 = (if cy E1 < rowoff E1 then E1\<lparr>rowoff := cy E1\<rparr> else E1);
                 E3 = (if cy E2 \<ge> rowoff E2 + screenrows E2
                       then E2\<lparr>rowoff := cy E2 - screenrows E2 + 1\<rparr> else E2);
                 E4 = (if rx E3 < coloff E3 then E3\<lparr>coloff := rx E3\<rparr> else E3)
             in if rx E4 \<ge> coloff E4 + screencols E4
                then E4\<lparr>coloff := rx E4 - screencols E4 + 1\<rparr> else E4)"
    by (rule editorScroll_SomeD)
  show ?thesis unfolding E' using assms(1,2) by (simp add: Let_def)
qed

lemma editorScroll_jump:
  assumes "screenrows E = 10" "cy E = 25" "rowoff E \<le> 5" "editorScroll E = Some E'"
  shows "rowoff E' = 16 \<and> cy E' = rowoff E' + screenrows E' - 1"
proof -
  from assms(4) obtain x where E': "E' =
            (let E1 = E\<lparr>rx := x\<rparr>;
                 E2 = (if cy E1 < rowoff E1 then E1\<lparr>rowoff := cy E1\<rparr> else E1);
                 E3 = (if cy E2 \<ge> rowoff E2 + screenrows E2
                       then E2\<lparr>rowoff := cy E2 - screenrows E2 + 1\<rparr> else E2);
                 E4 = (if rx E3 < coloff E3 then E3\<lparr>coloff := rx E3\<rparr> else E3)
             in if rx E4 \<ge> coloff E4 + screencols E4
                then E4\<lparr>coloff := rx E4 - screencols E4 + 1\<rparr> else E4)"
    by (rule editorScroll_SomeD)
  show ?thesis unfolding E' using assms(1,2,3) by (simp add: Let_def)
qed

text \<open>
  C2. In every state with \<open>screenrows \<ge> 1\<close> and \<open>screencols \<ge> 1\<close>, the state that
  \<open>editorScroll\<close> returns has \<open>cy\<close> in \<open>[rowoff, rowoff + screenrows)\<close> and \<open>rx\<close> in
  \<open>[coloff, coloff + screencols)\<close>; it does return one whenever the row store is well
  formed and the cursor is within its bounds. With \<open>screenrows = 10\<close>, \<open>cy = 25\<close> and
  a row offset of at most 5 (the cursor came from row 5), the new row offset is 16
  and \<open>cy\<close> is the last visible row.
\<close>

theorem scroll_keeps_cursor_visible:
  "(1 \<le> screenrows E \<longrightarrow> 1 \<le> screencols E \<longrightarrow>
      (\<forall>E'. editorScroll E = Some E' \<longrightarrow>
         rowoff E' \<le> cy E' \<and> cy E' < rowoff E' + screenrows E'
         \<and> coloff E' \<le> rx E' \<and> rx E' < coloff E' + screencols E'))
   \<and> (rows_ok E \<longrightarrow> cursor_inv E \<longrightarrow> (\<exists>E'. editorScroll E = Some E'))
   \<and> (screenrows E = 10 \<longrightarrow> cy E = 25 \<longrightarrow> rowoff E \<le> 5 \<longrightarrow>
        (\<forall>E'. editorScroll E = Some E' \<longrightarrow>
           rowoff E' = 16 \<and> cy E' = rowoff E' + screenrows E' - 1))"
  using editorScroll_window [of E] editorScroll_defined [of E] editorScroll_jump [of E]
  by blast

lemma thirty_rows_facts:
  "1 \<le> screenrows thirty_rows" "1 \<le> screencols thirty_rows" "rows_ok thirty_rows"
  "cursor_inv thirty_rows" "screenrows thirty_rows = 10" "cy thirty_rows = 25"
  "rowoff thirty_rows \<le> 5"
  by (simp_all add: thirty_rows_def initEditor_def rows_ok_def cursor_inv_def)

theorem scroll_keeps_cursor_visible_witness:
  "1 \<le> screenrows thirty_rows \<and> 1 \<le> screencols thirty_rows \<and> rows_ok thirty_rows
   \<and> cursor_inv thirty_rows \<and> screenrows thirty_rows = 10 \<and> cy thirty_rows = 25
   \<and> rowoff thirty_rows \<le> 5
   \<and> (\<exists>E'. editorScroll thirty_rows = Some E' \<and> rowoff E' = 16
         \<and> rowoff E' \<le> cy E' \<and> cy E' < rowoff E' + screenrows E'
         \<and> coloff E' \<le> rx E' \<and> rx E' < coloff E' + screencols E')"
  using scroll_keeps_cursor_visible [of thirty_rows] thirty_rows_facts
  by blast

section \<open>The key decoder\<close>

lemma read_key_plain: "ch \<noteq> ESC \<Longrightarrow> editorReadKey (Byte ch # rs) = Key (char_int ch) rs"
  by simp

lemma char_int_ascii: "(of_char ch :: int) < 128 \<Longrightarrow> char_int ch = of_char ch"
  by (simp add: char_int_def)

lemma read_key_timeout1:
  "fst (next_byte rs) = None \<Longrightarrow>
   editorReadKey (Byte ESC # rs) = Key (K ESC) (snd (next_byte rs))"
  by (cases "next_byte rs") (simp add: read_escape_def)

lemma read_key_timeout2:
  "fst (next_byte rs) = None \<Longrightarrow>
   editorReadKey (Byte ESC # Byte s0 # rs) = Key (K ESC) (snd (next_byte rs))"
  by (cases "next_byte rs") (simp add: read_escape_def)

lemma read_key_letters:
  "editorReadKey (Byte ESC # Byte CHR ''['' # Byte CHR ''A'' # rs) = Key ARROW_UP rs"
  "editorReadKey (Byte ESC # Byte CHR ''['' # Byte CHR ''B'' # rs) = Key ARROW_DOWN rs"
  "editorReadKey (Byte ESC # Byte CHR ''['' # Byte CHR ''C'' # rs) = Key ARROW_RIGHT rs"
  "editorReadKey (Byte ESC # Byte CHR ''['' # Byte CHR ''D'' # rs) = Key ARROW_LEFT rs"
  "editorReadKey (Byte ESC # Byte CHR ''['' # Byte CHR ''H'' # rs) = Key HOME_KEY rs"
  "editorReadKey (Byte ESC # Byte CHR ''['' # Byte CHR ''F'' # rs) = Key END_KEY rs"
  by (simp_all add: read_escape_def is_digit_def char_int_def)

lemma read_key_digits:
  "editorReadKey (Byte ESC # Byte CHR ''['' # Byte CHR ''1'' # Byte CHR ''~'' # rs) = Key HOME_KEY rs"
  "editorReadKey (Byte ESC # Byte CHR ''['' # Byte CHR ''3'' # Byte CHR ''~'' # rs) = Key DEL_KEY rs"
  "editorReadKey (Byte ESC # Byte CHR ''['' # Byte CHR ''4'' # Byte CHR ''~'' # rs) = Key END_KEY rs"
  "editorReadKey (Byte ESC # Byte CHR ''['' # Byte CHR ''5'' # Byte CHR ''~'' # rs) = Key PAGE_UP rs"
  "editorReadKey (Byte ESC # Byte CHR ''['' # Byte CHR ''6'' # Byte CHR ''~'' # rs) = Key PAGE_DOWN rs"
  "editorReadKey (Byte ESC # Byte CHR ''['' # Byte CHR ''7'' # Byte CHR ''~'' # rs) = Key HOME_KEY rs"
  "editorReadKey (Byte ESC # Byte CHR ''['' # Byte CHR ''8'' # Byte CHR ''~'' # rs) = Key END_KEY rs"
  by (simp_all add: read_escape_def is_digit_def char_int_def)

lemma read_key_no_tilde:
  "is_digit d \<Longrightarrow> fst (next_byte rs) \<noteq> Some CHR ''~'' \<Longrightarrow>
   editorReadKey (Byte ESC # Byte CHR ''['' # Byte d # rs) = Key (K ESC) (snd (next_byte rs))"
  by (cases "next_byte rs") (auto simp add: read_escape_def split: option.splits)

lemma read_key_no_bracket:
  "s0 \<noteq> CHR ''['' \<Longrightarrow> editorReadKey (Byte ESC # Byte s0 # Byte s1 # rs) = Key (K ESC) rs"
  by (simp add: read_escape_def)

lemma read_key_other_letter:
  "\<not> is_digit s1 \<Longrightarrow> s1 \<notin> set ''ABCDHF'' \<Longrightarrow>
   editorReadKey (Byte ESC # Byte CHR ''['' # Byte s1 # rs) = Key (K ESC) rs"
  by (auto simp add: read_escape_def)

lemma read_key_other_digits:
  "editorReadKey (Byte ESC # Byte CHR ''['' # Byte CHR ''0'' # Byte CHR ''~'' # rs) = Key (K ESC) rs"
  "editorReadKey (Byte ESC # Byte CHR ''['' # Byte CHR ''2'' # Byte CHR ''~'' # rs) = Key (K ESC) rs"
  "editorReadKey (Byte ESC # Byte CHR ''['' # Byte CHR ''9'' # Byte CHR ''~'' # rs) = Key (K ESC) rs"
  by (simp_all add: read_escape_def is_digit_def char_int_def)

text \<open>
  C4. \<open>editorReadKey\<close> on the results of its reads. A first byte other than ESC is
  returned as the value of that \<^verbatim>\<open>char\<close> (its code, for a 7-bit byte). After ESC:
  when the first or the second lookahead read brings no byte, the key is ESC;
  \<^verbatim>\<open>ESC [ A/B/C/D\<close> are the arrows up, down, right, left and \<^verbatim>\<open>ESC [ H\<close>,
  \<^verbatim>\<open>ESC [ F\<close> Home and End; \<^verbatim>\<open>ESC [ d ~\<close> is Home for 1 and 7, Delete for 3, End for
  4 and 8, PageUp for 5, PageDown for 6; a digit followed by no byte or by a byte
  other than \<^verbatim>\<open>~\<close> gives ESC; and every other combination (no \<^verbatim>\<open>[\<close>, another
  letter, the digits 0, 2 and 9) gives ESC.
\<close>

theorem key_decoder_table:
  "(ch \<noteq> ESC \<longrightarrow> editorReadKey (Byte ch # rs) = Key (char_int ch) rs)
   \<and> ((of_char ch :: int) < 128 \<longrightarrow> char_int ch = of_char ch)
   \<and> (fst (next_byte rs) = None \<longrightarrow>
        editorReadKey (Byte ESC # rs) = Key (K ESC) (snd (next_byte rs)))
   \<and> (fst (next_byte rs) = None \<longrightarrow>
        editorReadKey (Byte ESC # Byte s0 # rs) = Key (K ESC) (snd (next_byte rs)))
   \<and> editorReadKey (Byte ESC # Byte CHR ''['' # Byte CHR ''A'' # rs) = Key ARROW_UP rs
   \<and> editorReadKey (Byte ESC # Byte CHR ''['' # Byte CHR ''B'' # rs) = Key ARROW_DOWN rs
   \<and> editorReadKey (Byte ESC # Byte CHR ''['' # Byte CHR ''C'' # rs) = Key ARROW_RIGHT rs
   \<and> editorReadKey (Byte ESC # Byte CHR ''['' # Byte CHR ''D'' # rs) = Key ARROW_LEFT rs
   \<and> editorReadKey (Byte ESC # Byte CHR ''['' # Byte CHR ''H'' # rs) = Key HOME_KEY rs
   \<and> editorReadKey (Byte ESC # Byte CHR ''['' # Byte CHR ''F'' # rs) = Key END_KEY rs
   \<and> editorReadKey (Byte ESC # Byte CHR ''['' # Byte CHR ''1'' # Byte CHR ''~'' # rs) = Key HOME_KEY rs
   \<and> editorReadKey (Byte ESC # Byte CHR ''['' # Byte CHR ''7'' # Byte CHR ''~'' # rs) = Key HOME_KEY rs
   \<and> editorReadKey (Byte ESC # Byte CHR ''['' # Byte CHR ''3'' # Byte CHR ''~'' # rs) = Key DEL_KEY rs
   \<and> editorReadKey (Byte ESC # Byte CHR ''['' # Byte CHR ''4'' # Byte CHR ''~'' # rs) = Key END_KEY rs
   \<and> editorReadKey (Byte ESC # Byte CHR ''['' # Byte CHR ''8'' # Byte CHR ''~'' # rs) = Key END_KEY rs
   \<and> editorReadKey (Byte ESC # Byte CHR ''['' # Byte CHR ''5'' # Byte CHR ''~'' # rs) = Key PAGE_UP rs
   \<and> editorReadKey (Byte ESC # Byte CHR ''['' # Byte CHR ''6'' # Byte CHR ''~'' # rs) = Key PAGE_DOWN rs
   \<and> (is_digit d \<longrightarrow> fst (next_byte rs) \<noteq> Some CHR ''~'' \<longrightarrow>
        editorReadKey (Byte ESC # Byte CHR ''['' # Byte d # rs) = Key (K ESC) (snd (next_byte rs)))
   \<and> (s0 \<noteq> CHR ''['' \<longrightarrow>
        editorReadKey (Byte ESC # Byte s0 # Byte s1 # rs) = Key (K ESC) rs)
   \<and> (\<not> is_digit s1 \<longrightarrow> s1 \<notin> set ''ABCDHF'' \<longrightarrow>
        editorReadKey (Byte ESC # Byte CHR ''['' # Byte s1 # rs) = Key (K ESC) rs)
   \<and> editorReadKey (Byte ESC # Byte CHR ''['' # Byte CHR ''0'' # Byte CHR ''~'' # rs) = Key (K ESC) rs
   \<and> editorReadKey (Byte ESC # Byte CHR ''['' # Byte CHR ''2'' # Byte CHR ''~'' # rs) = Key (K ESC) rs
   \<and> editorReadKey (Byte ESC # Byte CHR ''['' # Byte CHR ''9'' # Byte CHR ''~'' # rs) = Key (K ESC) rs
   \<and> editorReadKey (Nothing # rs) = editorReadKey rs"
  by (intro conjI impI;
      ((rule read_key_plain char_int_ascii read_key_timeout1 read_key_timeout2
          read_key_letters read_key_digits read_key_no_tilde read_key_no_bracket
          read_key_other_letter read_key_other_digits editorReadKey.simps(2);
        assumption)))

theorem key_decoder_table_witness:
  "CHR ''x'' \<noteq> ESC \<and> (of_char CHR ''x'' :: int) < 128 \<and> fst (next_byte []) = None
   \<and> is_digit CHR ''5'' \<and> fst (next_byte []) \<noteq> Some CHR ''~''
   \<and> CHR ''O'' \<noteq> CHR ''['' \<and> \<not> is_digit CHR ''Z'' \<and> CHR ''Z'' \<notin> set ''ABCDHF''
   \<and> editorReadKey [Byte CHR ''x''] = Key 120 []
   \<and> editorReadKey [Byte ESC] = Key 27 []
   \<and> editorReadKey [Byte ESC, Byte CHR ''O''] = Key 27 []
   \<and> editorReadKey [Byte ESC, Byte CHR ''['', Byte CHR ''5''] = Key 27 []
   \<and> editorReadKey [Byte ESC, Byte CHR ''O'', Byte CHR ''Z''] = Key 27 []
   \<and> editorReadKey [Byte ESC, Byte CHR ''['', Byte CHR ''Z''] = Key 27 []"
  using key_decoder_table [of "CHR ''x''" "[]" "CHR ''O''" "CHR ''5''" "CHR ''Z''"]
  by (simp add: is_digit_def char_int_def)

section \<open>Cursor movement\<close>

lemma row_char_in:
  "size_e r = int (length (chars r)) \<Longrightarrow> 0 \<le> x \<Longrightarrow> x \<le> size_e r \<Longrightarrow> \<exists>ch. row_char r x = Some ch"
  by (simp add: row_char_def)

lemma skip_nonspace_defined:
  "size_e r = int (length (chars r)) \<Longrightarrow> 0 \<le> x \<Longrightarrow> \<exists>x'. skip_nonspace r x = Some x' \<and> x \<le> x'"
proof (induction r x rule: skip_nonspace.induct)
  case (1 r x)
  show ?case
  proof (cases "x < size_e r")
    case False
    then show ?thesis by (simp add: skip_nonspace.simps)
  next
    case True
    with 1(2,3) obtain ch where ch: "row_char r x = Some ch"
      using row_char_in[of r x] by auto
    show ?thesis
    proof (cases "isspace ch")
      case True
      with \<open>x < size_e r\<close> ch show ?thesis by (simp add: skip_nonspace.simps)
    next
      case False
      with 1(1)[OF \<open>x < size_e r\<close> ch] 1(2,3) obtain x' where "skip_nonspace r (x + 1) = Some x'" "x + 1 \<le> x'"
        by auto
      with \<open>x < size_e r\<close> ch False show ?thesis by (simp add: skip_nonspace.simps)
    qed
  qed
qed

lemma skip_word_defined:
  "size_e r = int (length (chars r)) \<Longrightarrow> 0 \<le> x \<Longrightarrow> \<exists>x'. skip_word r x = Some x' \<and> x \<le> x'"
proof (induction r x rule: skip_word.induct)
  case (1 r x)
  show ?case
  proof (cases "x < size_e r")
    case False
    then show ?thesis by (simp add: skip_word.simps)
  next
    case True
    with 1(2,3) obtain ch where ch: "row_char r x = Some ch"
      using row_char_in[of r x] by auto
    from True 1(2,3) obtain ch' where ch': "row_char r (x + 1) = Some ch'"
      using row_char_in[of r "x + 1"] by auto
    show ?thesis
    proof (cases "\<not> isspace ch \<and> \<not> ispunct ch'")
      case False
      with True ch ch' show ?thesis by (auto simp add: skip_word.simps)
    next
      case c: True
      with 1(1)[OF True ch _ ch'] 1(2,3) obtain x' where "skip_word r (x + 1) = Some x'" "x + 1 \<le> x'"
        by auto
      with True ch ch' c show ?thesis by (simp add: skip_word.simps)
    qed
  qed
qed

lemma skip_spaces_defined:
  "size_e r = int (length (chars r)) \<Longrightarrow> 0 \<le> x \<Longrightarrow> \<exists>x'. skip_spaces r x = Some x' \<and> x \<le> x'"
proof (induction r x rule: skip_spaces.induct)
  case (1 r x)
  show ?case
  proof (cases "x < size_e r")
    case False
    then show ?thesis by (simp add: skip_spaces.simps)
  next
    case True
    with 1(2,3) obtain ch where ch: "row_char r x = Some ch"
      using row_char_in[of r x] by auto
    show ?thesis
    proof (cases "ch = CHR '' ''")
      case False
      with True ch show ?thesis by (simp add: skip_spaces.simps)
    next
      case c: True
      with 1(1)[OF True ch] 1(2,3) obtain x' where "skip_spaces r (x + 1) = Some x'" "x + 1 \<le> x'"
        by auto
      with True ch c show ?thesis by (simp add: skip_spaces.simps)
    qed
  qed
qed

lemma get_row_Some:
  "rows_ok E \<Longrightarrow> 0 \<le> i \<Longrightarrow> i < numrows E \<Longrightarrow> get_row E i = Some (row E ! nat i)"
  by (simp add: rows_ok_def get_row_def)

lemma row_size_ok:
  "rows_ok E \<Longrightarrow> 0 \<le> i \<Longrightarrow> i < numrows E \<Longrightarrow>
   size_e (row E ! nat i) = int (length (chars (row E ! nat i)))"
  by (simp add: rows_ok_def)

lemma row_size_nonneg:
  "rows_ok E \<Longrightarrow> 0 \<le> i \<Longrightarrow> i < numrows E \<Longrightarrow> 0 \<le> size_e (row E ! nat i)"
  by (simp add: row_size_ok)

lemma word_scan_defined:
  assumes "size_e r = int (length (chars r))" "0 \<le> x"
  shows "\<exists>x1 x2. (if big then skip_nonspace r x else skip_word r x) = Some x1
          \<and> (if sp then skip_spaces r x1 else Some x1) = Some x2 \<and> 0 \<le> x2"
proof -
  obtain x1 where x1: "(if big then skip_nonspace r x else skip_word r x) = Some x1" "x \<le> x1"
    using skip_nonspace_defined[OF assms] skip_word_defined[OF assms] by (cases big) auto
  with assms have "0 \<le> x1" by simp
  then obtain x2 where "(if sp then skip_spaces r x1 else Some x1) = Some x2" "x1 \<le> x2"
    using skip_spaces_defined[OF assms(1), of x1] by (cases sp) auto
  with x1 \<open>0 \<le> x1\<close> show ?thesis by auto
qed

lemma move_switch_up:
  "key = K CHR ''k'' \<or> key = ARROW_UP \<Longrightarrow>
   move_switch key E = Some (if cy E \<noteq> 0 then E\<lparr>cy := cy E - 1\<rparr> else E)"
  by (elim disjE; hypsubst; simp add: move_switch_def)

lemma move_switch_down:
  "key = K CHR ''j'' \<or> key = ARROW_DOWN \<Longrightarrow>
   move_switch key E = Some (if cy E < numrows E then E\<lparr>cy := cy E + 1\<rparr> else E)"
  by (elim disjE; hypsubst; simp add: move_switch_def)

lemma move_switch_left:
  "key = K CHR ''h'' \<or> key = ARROW_LEFT \<Longrightarrow>
   move_switch key E =
     (if cx E \<noteq> 0 then Some (E\<lparr>cx := cx E - 1\<rparr>)
      else if cy E > 0 then
        (case get_row E (cy E - 1) of
           None \<Rightarrow> None
         | Some r \<Rightarrow> Some (E\<lparr>cy := cy E - 1, cx := size_e r\<rparr>))
      else Some E)"
  by (elim disjE; hypsubst; simp add: move_switch_def)

lemma move_switch_right:
  "key = K CHR ''l'' \<or> key = ARROW_RIGHT \<Longrightarrow>
   move_switch key E =
     (if cy E \<ge> numrows E then Some E
      else
        (case get_row E (cy E) of
           None \<Rightarrow> None
         | Some r \<Rightarrow>
             if cx E < size_e r then Some (E\<lparr>cx := cx E + 1\<rparr>)
             else if cx E = size_e r then Some (E\<lparr>cy := cy E + 1, cx := 0\<rparr>)
             else Some E))"
  by (elim disjE; hypsubst; simp add: move_switch_def)

lemma move_switch_wordkey:
  "key = K CHR ''w'' \<or> key = K CHR ''W'' \<or> key = K CHR ''e'' \<or> key = K CHR ''E'' \<Longrightarrow>
   move_switch key E =
        (if cy E \<ge> numrows E then Some E
         else
           (case get_row E (cy E) of
              None \<Rightarrow> None
            | Some r \<Rightarrow>
                (case (if key = K CHR ''W'' \<or> key = K CHR ''E''
                       then skip_nonspace r (cx E) else skip_word r (cx E)) of
                   None \<Rightarrow> None
                 | Some x1 \<Rightarrow>
                     (case (if key = K CHR ''W'' \<or> key = K CHR ''w''
                            then skip_spaces r x1 else Some x1) of
                        None \<Rightarrow> None
                      | Some x2 \<Rightarrow>
                          Some (if x2 \<ge> size_e r then E\<lparr>cy := cy E + 1, cx := 0\<rparr>
                                else E\<lparr>cx := x2\<rparr>)))))"
  by (elim disjE; hypsubst; simp add: move_switch_def cong: option.case_cong)

lemma move_switch_nokey:
  "\<not> (key = K CHR ''k'' \<or> key = ARROW_UP) \<Longrightarrow> \<not> (key = K CHR ''j'' \<or> key = ARROW_DOWN) \<Longrightarrow>
   \<not> (key = K CHR ''h'' \<or> key = ARROW_LEFT) \<Longrightarrow> \<not> (key = K CHR ''l'' \<or> key = ARROW_RIGHT) \<Longrightarrow>
   \<not> (key = K CHR ''w'' \<or> key = K CHR ''W'' \<or> key = K CHR ''e'' \<or> key = K CHR ''E'') \<Longrightarrow>
   move_switch key E = Some E"
  by (simp add: move_switch_def)

lemma move_switch_ok:
  assumes "rows_ok E" "cursor_weak E"
  shows "\<exists>E'. move_switch key E = Some E' \<and> cursor_weak E' \<and> cursor_only E E'"
proof -
  from assms(2) have w: "0 \<le> cy E" "cy E \<le> numrows E" "0 \<le> cx E"
    by (simp_all add: cursor_weak_def)
  consider (up) "key = K CHR ''k'' \<or> key = ARROW_UP"
    | (down) "key = K CHR ''j'' \<or> key = ARROW_DOWN"
    | (left) "key = K CHR ''h'' \<or> key = ARROW_LEFT"
    | (right) "key = K CHR ''l'' \<or> key = ARROW_RIGHT"
    | (word) "key = K CHR ''w'' \<or> key = K CHR ''W'' \<or> key = K CHR ''e'' \<or> key = K CHR ''E''"
    | (other) "\<not> (key = K CHR ''k'' \<or> key = ARROW_UP)" "\<not> (key = K CHR ''j'' \<or> key = ARROW_DOWN)"
        "\<not> (key = K CHR ''h'' \<or> key = ARROW_LEFT)" "\<not> (key = K CHR ''l'' \<or> key = ARROW_RIGHT)"
        "\<not> (key = K CHR ''w'' \<or> key = K CHR ''W'' \<or> key = K CHR ''e'' \<or> key = K CHR ''E'')"
    by blast
  then show ?thesis
  proof cases
    case up
    show ?thesis unfolding move_switch_up[OF up] using w
      by (simp add: cursor_weak_def cursor_only_def)
  next
    case down
    show ?thesis unfolding move_switch_down[OF down] using w
      by (simp add: cursor_weak_def cursor_only_def)
  next
    case left
    show ?thesis
    proof (cases "cx E = 0 \<and> cy E > 0")
      case False
      then show ?thesis unfolding move_switch_left[OF left] using w
        by (auto simp add: cursor_weak_def cursor_only_def)
    next
      case True
      with w assms(1) have g: "get_row E (cy E - 1) = Some (row E ! nat (cy E - 1))"
        and s: "0 \<le> size_e (row E ! nat (cy E - 1))"
        by (simp_all add: get_row_Some row_size_nonneg)
      show ?thesis unfolding move_switch_left[OF left] using w True g s
        by (simp add: cursor_weak_def cursor_only_def)
    qed
  next
    case right
    show ?thesis
    proof (cases "cy E \<ge> numrows E")
      case True
      then show ?thesis unfolding move_switch_right[OF right] using w
        by (simp add: cursor_weak_def cursor_only_def)
    next
      case False
      with w assms(1) have g: "get_row E (cy E) = Some (row E ! nat (cy E))"
        by (simp add: get_row_Some)
      show ?thesis unfolding move_switch_right[OF right] using w False g
        by (simp add: cursor_weak_def cursor_only_def)
    qed
  next
    case word
    show ?thesis
    proof (cases "cy E \<ge> numrows E")
      case True
      then show ?thesis unfolding move_switch_wordkey[OF word] using w
        by (simp add: cursor_weak_def cursor_only_def)
    next
      case False
      let ?r = "row E ! nat (cy E)"
      from False w assms(1) have g: "get_row E (cy E) = Some ?r"
        and sz: "size_e ?r = int (length (chars ?r))"
        by (simp_all add: get_row_Some row_size_ok)
      from word_scan_defined[OF sz w(3), of "key = K CHR ''W'' \<or> key = K CHR ''E''"
          "key = K CHR ''W'' \<or> key = K CHR ''w''"]
      obtain x1 x2 where x:
        "(if key = K CHR ''W'' \<or> key = K CHR ''E''
          then skip_nonspace ?r (cx E) else skip_word ?r (cx E)) = Some x1"
        "(if key = K CHR ''W'' \<or> key = K CHR ''w''
          then skip_spaces ?r x1 else Some x1) = Some x2" "0 \<le> x2"
        by blast
      have ms: "move_switch key E =
          Some (if x2 \<ge> size_e ?r then E\<lparr>cy := cy E + 1, cx := 0\<rparr> else E\<lparr>cx := x2\<rparr>)"
        unfolding move_switch_wordkey[OF word] using False g x(1,2) by simp
      show ?thesis unfolding ms using w False x(3)
        by (simp add: cursor_weak_def cursor_only_def)
    qed
  next
    case other
    show ?thesis unfolding move_switch_nokey[OF other] using w
      by (simp add: cursor_weak_def cursor_only_def)
  qed
qed

lemma cursor_onlyD: "cursor_only E E' \<Longrightarrow> \<exists>x y. E' = E\<lparr>cx := x, cy := y\<rparr>"
  unfolding cursor_only_def by blast

lemma cursor_onlyI: "E' = E\<lparr>cx := x, cy := y\<rparr> \<Longrightarrow> cursor_only E E'"
  unfolding cursor_only_def by simp

lemma cursor_only_refl: "cursor_only E E"
  by (simp add: cursor_only_def)

lemma cursor_only_trans:
  assumes "cursor_only E E1" "cursor_only E1 E2"
  shows "cursor_only E E2"
proof -
  from assms(1) obtain x y where 1: "E1 = E\<lparr>cx := x, cy := y\<rparr>" using cursor_onlyD by blast
  from assms(2) obtain x' y' where 2: "E2 = E1\<lparr>cx := x', cy := y'\<rparr>" using cursor_onlyD by blast
  show ?thesis by (rule cursor_onlyI[where x=x' and y=y']) (simp add: 1 2)
qed

lemma cursor_only_fields:
  assumes "cursor_only E E'"
  shows "mode E' = mode E \<and> cmdbuf E' = cmdbuf E \<and> cmdrep E' = cmdrep E \<and> rx E' = rx E
    \<and> rowoff E' = rowoff E \<and> coloff E' = coloff E \<and> screenrows E' = screenrows E
    \<and> screencols E' = screencols E \<and> numrows E' = numrows E \<and> row E' = row E
    \<and> filename E' = filename E \<and> statusmsg E' = statusmsg E"
proof -
  from assms obtain x y where 1: "E' = E\<lparr>cx := x, cy := y\<rparr>" using cursor_onlyD by blast
  show ?thesis by (simp add: 1)
qed

lemma cursor_only_rows_ok: "cursor_only E E' \<Longrightarrow> rows_ok E \<Longrightarrow> rows_ok E'"
  using cursor_only_fields[of E E'] by (simp add: rows_ok_def)

lemma cursor_inv_weak: "rows_ok E \<Longrightarrow> cursor_inv E \<Longrightarrow> cursor_weak E"
  by (simp add: cursor_inv_def cursor_weak_def)

lemma snap_cursor_ok:
  assumes "rows_ok E" "cursor_weak E"
  shows "\<exists>E'. snap_cursor E = Some E' \<and> cursor_inv E' \<and> cursor_only E E'"
proof (cases "cy E \<ge> numrows E")
  case True
  with assms(2) show ?thesis
    by (simp add: snap_cursor_def cursor_weak_def cursor_inv_def cursor_only_def)
next
  case False
  with assms have g: "get_row E (cy E) = Some (row E ! nat (cy E))"
    and s: "0 \<le> size_e (row E ! nat (cy E))"
    by (simp_all add: get_row_Some row_size_nonneg cursor_weak_def)
  with assms(2) False show ?thesis
    by (simp add: snap_cursor_def cursor_weak_def cursor_inv_def cursor_only_def)
qed

lemma editorMoveCursor_ok:
  assumes "rows_ok E" "cursor_weak E"
  shows "\<exists>E'. editorMoveCursor key E = Some E' \<and> cursor_inv E' \<and> cursor_only E E'"
proof -
  from move_switch_ok[OF assms, of key] obtain E1 where
    1: "move_switch key E = Some E1" "cursor_weak E1" "cursor_only E E1" by blast
  from 1(3) assms(1) have "rows_ok E1" by (rule cursor_only_rows_ok)
  from snap_cursor_ok[OF this 1(2)] obtain E2 where
    2: "snap_cursor E1 = Some E2" "cursor_inv E2" "cursor_only E1 E2" by blast
  from 1(1) 2(1) have "editorMoveCursor key E = Some E2" by (simp add: editorMoveCursor_def)
  with 2(2) cursor_only_trans[OF 1(3) 2(3)] show ?thesis by blast
qed

lemma move_times_ok:
  assumes "rows_ok E" "cursor_weak E" "0 < n"
  shows "\<exists>E'. move_times n key E = Some E' \<and> cursor_inv E' \<and> cursor_only E E'"
  using assms
proof (induction n arbitrary: E)
  case 0
  then show ?case by simp
next
  case (Suc n)
  from editorMoveCursor_ok[OF Suc.prems(1,2), of key] obtain E1 where
    1: "editorMoveCursor key E = Some E1" "cursor_inv E1" "cursor_only E E1" by blast
  have r1: "rows_ok E1" using 1(3) Suc.prems(1) by (rule cursor_only_rows_ok)
  show ?case
  proof (cases "n = 0")
    case True
    with 1 show ?thesis by simp
  next
    case False
    with Suc.IH[OF r1 cursor_inv_weak[OF r1 1(2)]] obtain E2 where
      2: "move_times n key E1 = Some E2" "cursor_inv E2" "cursor_only E1 E2" by auto
    with 1 cursor_only_trans[OF 1(3) 2(3)] show ?thesis by auto
  qed
qed

section \<open>The dispatcher, key by key\<close>

lemma ctrl_keys:
  "CTRL_KEY (K CHR ''q'') = 17" "CTRL_KEY (K CHR ''u'') = 21" "CTRL_KEY (K CHR ''d'') = 4"
  "CTRL_KEY 113 = 17" "CTRL_KEY 117 = 21" "CTRL_KEY 100 = 4"
  by (simp_all add: CTRL_KEY_def)

lemma normal_switch_i: "normal_switch (K CHR ''i'') E = Continue (E\<lparr>mode := INSERT_MODE\<rparr>)"
  by (simp add: normal_switch_def)

lemma normal_switch_colon:
  "normal_switch (K CHR '':'') E = Continue (editorSetStatusMsg '':'' (E\<lparr>mode := COMMAND_MODE\<rparr>))"
  by (simp add: normal_switch_def)

lemma normal_switch_quit: "normal_switch (CTRL_KEY (K CHR ''q'')) E = editorExit"
  by (simp add: normal_switch_def ctrl_keys)

lemma normal_switch_home:
  "c = K CHR ''0'' \<or> c = HOME_KEY \<Longrightarrow> normal_switch c E = Continue (E\<lparr>cx := 0\<rparr>)"
  by (elim disjE; hypsubst; simp add: normal_switch_def ctrl_keys)

lemma normal_switch_end:
  "c = K CHR ''$'' \<or> c = END_KEY \<Longrightarrow>
   normal_switch c E =
        (if cy E < numrows E
         then (case get_row E (cy E) of
                 None \<Rightarrow> Undefined
               | Some r \<Rightarrow> Continue (E\<lparr>cx := size_e r\<rparr>))
         else Continue E)"
  by (elim disjE; hypsubst; simp add: normal_switch_def ctrl_keys)

lemma normal_switch_page_up:
  "c = CTRL_KEY (K CHR ''u'') \<or> c = PAGE_UP \<Longrightarrow>
   normal_switch c E = lift (move_times (rounds (screenrows E)) ARROW_UP (E\<lparr>cy := rowoff E\<rparr>))"
  by (elim disjE; hypsubst; simp add: normal_switch_def ctrl_keys)

lemma normal_switch_page_down:
  "c = CTRL_KEY (K CHR ''d'') \<or> c = PAGE_DOWN \<Longrightarrow>
   normal_switch c E =
     lift (move_times (rounds (screenrows E)) ARROW_DOWN
       (if rowoff E + screenrows E - 1 > numrows E then E\<lparr>cy := numrows E\<rparr>
        else E\<lparr>cy := rowoff E + screenrows E - 1\<rparr>))"
  by (elim disjE; hypsubst; simp add: normal_switch_def ctrl_keys Let_def)

lemma normal_switch_motion:
  "motion_key c \<Longrightarrow> normal_switch c E = lift (editorMoveCursor c E)"
  unfolding motion_key_def
  by (elim disjE; hypsubst; simp add: normal_switch_def ctrl_keys)

lemma normal_switch_other:
  "c \<noteq> K CHR ''i'' \<Longrightarrow> c \<noteq> K CHR '':'' \<Longrightarrow> c \<noteq> CTRL_KEY (K CHR ''q'') \<Longrightarrow>
   \<not> (c = K CHR ''0'' \<or> c = HOME_KEY) \<Longrightarrow> \<not> (c = K CHR ''$'' \<or> c = END_KEY) \<Longrightarrow>
   \<not> page_key c \<Longrightarrow> \<not> motion_key c \<Longrightarrow> normal_switch c E = Continue E"
  by (simp add: normal_switch_def page_key_def motion_key_def)

lemma rounds_pos: "1 \<le> t \<Longrightarrow> 0 < rounds t"
  by (simp add: rounds_def)

lemma lift_Some: "lift (Some E) = Continue E"
  by (simp add: lift_def)

lemma inv_same_cursor:
  assumes "cx E' = cx E" "cy E' = cy E" "row E' = row E" "numrows E' = numrows E"
    and "rows_ok E" "cursor_inv E"
  shows "rows_ok E' \<and> cursor_inv E' \<and> row E' = row E \<and> numrows E' = numrows E"
  using assms by (auto simp add: rows_ok_def cursor_inv_def split: if_splits)

lemma inv_set_cx:
  assumes "rows_ok E" "cursor_inv E" "0 \<le> x"
    "x \<le> (if cy E < numrows E then size_e (row E ! nat (cy E)) else 0)"
  shows "rows_ok (E\<lparr>cx := x\<rparr>) \<and> cursor_inv (E\<lparr>cx := x\<rparr>)
    \<and> row (E\<lparr>cx := x\<rparr>) = row E \<and> numrows (E\<lparr>cx := x\<rparr>) = numrows E"
  using assms by (auto simp add: rows_ok_def cursor_inv_def split: if_splits)

lemma normal_switch_keeps_inv:
  assumes r: "rows_ok E" and i: "cursor_inv E"
    and p: "page_key c \<Longrightarrow> 1 \<le> screenrows E \<and> 0 \<le> rowoff E
      \<and> (c = CTRL_KEY (K CHR ''u'') \<or> c = PAGE_UP \<longrightarrow> rowoff E \<le> numrows E)"
  shows "normal_switch c E = editorExit
     \<or> (\<exists>E'. normal_switch c E = Continue E' \<and> rows_ok E' \<and> cursor_inv E'
            \<and> row E' = row E \<and> numrows E' = numrows E)"
proof -
  from i have b: "0 \<le> cy E" "cy E \<le> numrows E" "0 \<le> cx E"
    by (simp_all add: cursor_inv_def)
  consider (ins) "c = K CHR ''i''" | (colon) "c = K CHR '':''" | (quit) "c = CTRL_KEY (K CHR ''q'')"
    | (home) "c = K CHR ''0'' \<or> c = HOME_KEY" | (endk) "c = K CHR ''$'' \<or> c = END_KEY"
    | (pgup) "c = CTRL_KEY (K CHR ''u'') \<or> c = PAGE_UP"
    | (pgdn) "c = CTRL_KEY (K CHR ''d'') \<or> c = PAGE_DOWN"
    | (motion) "motion_key c"
    | (other) "c \<noteq> K CHR ''i''" "c \<noteq> K CHR '':''" "c \<noteq> CTRL_KEY (K CHR ''q'')"
        "\<not> (c = K CHR ''0'' \<or> c = HOME_KEY)" "\<not> (c = K CHR ''$'' \<or> c = END_KEY)"
        "\<not> page_key c" "\<not> motion_key c"
    unfolding page_key_def by blast
  then show ?thesis
  proof cases
    case ins
    have "normal_switch c E = Continue (E\<lparr>mode := INSERT_MODE\<rparr>)"
      unfolding ins by (rule normal_switch_i)
    moreover have "rows_ok (E\<lparr>mode := INSERT_MODE\<rparr>) \<and> cursor_inv (E\<lparr>mode := INSERT_MODE\<rparr>)
        \<and> row (E\<lparr>mode := INSERT_MODE\<rparr>) = row E \<and> numrows (E\<lparr>mode := INSERT_MODE\<rparr>) = numrows E"
      by (rule inv_same_cursor[OF _ _ _ _ r i]) simp_all
    ultimately show ?thesis by blast
  next
    case colon
    let ?E' = "editorSetStatusMsg '':'' (E\<lparr>mode := COMMAND_MODE\<rparr>)"
    have "normal_switch c E = Continue ?E'"
      unfolding colon by (rule normal_switch_colon)
    moreover have "rows_ok ?E' \<and> cursor_inv ?E' \<and> row ?E' = row E \<and> numrows ?E' = numrows E"
      by (rule inv_same_cursor[OF _ _ _ _ r i]) (simp_all add: editorSetStatusMsg_def)
    ultimately show ?thesis by blast
  next
    case quit
    show ?thesis unfolding quit normal_switch_quit by simp
  next
    case home
    have "0 \<le> size_e (row E ! nat (cy E))" if "cy E < numrows E"
      using that r b by (simp add: row_size_nonneg)
    then have "(0::int) \<le> (if cy E < numrows E then size_e (row E ! nat (cy E)) else 0)" by simp
    from inv_set_cx[OF r i _ this] normal_switch_home[OF home, of E]
    show ?thesis by simp
  next
    case endk
    show ?thesis
    proof (cases "cy E < numrows E")
      case False
      then have "normal_switch c E = Continue E" unfolding normal_switch_end[OF endk] by simp
      with r i show ?thesis by simp
    next
      case True
      with r b have g: "get_row E (cy E) = Some (row E ! nat (cy E))"
        and s: "0 \<le> size_e (row E ! nat (cy E))"
        by (simp_all add: get_row_Some row_size_nonneg)
      have n: "normal_switch c E = Continue (E\<lparr>cx := size_e (row E ! nat (cy E))\<rparr>)"
        unfolding normal_switch_end[OF endk] using True g by simp
      from True have "size_e (row E ! nat (cy E)) \<le> (if cy E < numrows E then size_e (row E ! nat (cy E)) else 0)"
        by simp
      from inv_set_cx[OF r i s this] n show ?thesis by simp
    qed
  next
    case pgup
    then have "page_key c" by (auto simp add: page_key_def)
    from p[OF this] pgup have s: "1 \<le> screenrows E" "0 \<le> rowoff E" "rowoff E \<le> numrows E"
      by blast+
    let ?E1 = "E\<lparr>cy := rowoff E\<rparr>"
    have r1: "rows_ok ?E1" using r by (simp add: rows_ok_def)
    have w1: "cursor_weak ?E1" using s b by (simp add: cursor_weak_def)
    from move_times_ok[OF r1 w1 rounds_pos[OF s(1)], of ARROW_UP] obtain E' where
      m: "move_times (rounds (screenrows E)) ARROW_UP ?E1 = Some E'" "cursor_inv E'" "cursor_only ?E1 E'"
      by blast
    from cursor_only_fields[OF m(3)] cursor_only_rows_ok[OF m(3) r1] m(1,2)
    show ?thesis unfolding normal_switch_page_up[OF pgup] by (simp add: lift_Some)
  next
    case pgdn
    then have "page_key c" by (auto simp add: page_key_def)
    from p[OF this] have s: "1 \<le> screenrows E" "0 \<le> rowoff E" by simp_all
    let ?E1 = "if rowoff E + screenrows E - 1 > numrows E then E\<lparr>cy := numrows E\<rparr>
        else E\<lparr>cy := rowoff E + screenrows E - 1\<rparr>"
    have r1: "rows_ok ?E1" using r by (simp add: rows_ok_def)
    have w1: "cursor_weak ?E1" using s b by (simp add: cursor_weak_def)
    have f1: "row ?E1 = row E" "numrows ?E1 = numrows E" by simp_all
    from move_times_ok[OF r1 w1 rounds_pos[OF s(1)], of ARROW_DOWN] obtain E' where
      m: "move_times (rounds (screenrows E)) ARROW_DOWN ?E1 = Some E'" "cursor_inv E'" "cursor_only ?E1 E'"
      by blast
    from cursor_only_fields[OF m(3)] cursor_only_rows_ok[OF m(3) r1] m(1,2) f1
    show ?thesis unfolding normal_switch_page_down[OF pgdn] by (simp add: lift_Some)
  next
    case motion
    from editorMoveCursor_ok[OF r cursor_inv_weak[OF r i], of c] obtain E' where
      m: "editorMoveCursor c E = Some E'" "cursor_inv E'" "cursor_only E E'" by blast
    from cursor_only_fields[OF m(3)] cursor_only_rows_ok[OF m(3) r] m(1,2)
    show ?thesis unfolding normal_switch_motion[OF motion] by (simp add: lift_Some)
  next
    case other
    show ?thesis unfolding normal_switch_other[OF other] using r i by simp
  qed
qed

lemma normal_mode_key_digit:
  "counts_digit c E \<Longrightarrow>
   normal_mode_key c E = Continue (E\<lparr>cmdrep := cmdrep E * 10 + word_of_int (c - K CHR ''0'')\<rparr>)"
  by (simp add: normal_mode_key_def editorNormalModeNumRep_def)

lemma normal_mode_key_other:
  "\<not> counts_digit c E \<Longrightarrow>
   normal_mode_key c E =
     (case normal_switch c E of Continue E' \<Rightarrow> Continue (E'\<lparr>cmdrep := 0\<rparr>) | out \<Rightarrow> out)"
  by (simp add: normal_mode_key_def)

lemma normal_mode_key_keeps_inv:
  assumes r: "rows_ok E" and i: "cursor_inv E"
    and p: "page_key c \<Longrightarrow> 1 \<le> screenrows E \<and> 0 \<le> rowoff E
      \<and> (c = CTRL_KEY (K CHR ''u'') \<or> c = PAGE_UP \<longrightarrow> rowoff E \<le> numrows E)"
  shows "normal_mode_key c E = editorExit
     \<or> (\<exists>E'. normal_mode_key c E = Continue E' \<and> rows_ok E' \<and> cursor_inv E'
            \<and> row E' = row E \<and> numrows E' = numrows E)"
proof (cases "counts_digit c E")
  case True
  let ?E' = "E\<lparr>cmdrep := cmdrep E * 10 + word_of_int (c - K CHR ''0'')\<rparr>"
  have "rows_ok ?E' \<and> cursor_inv ?E' \<and> row ?E' = row E \<and> numrows ?E' = numrows E"
    by (rule inv_same_cursor[OF _ _ _ _ r i]) simp_all
  with normal_mode_key_digit[OF True] show ?thesis by blast
next
  case False
  from normal_switch_keeps_inv[OF r i p] show ?thesis
  proof
    assume "normal_switch c E = editorExit"
    then show ?thesis unfolding normal_mode_key_other[OF False] by (simp add: editorExit_def)
  next
    assume "\<exists>E'. normal_switch c E = Continue E' \<and> rows_ok E' \<and> cursor_inv E'
            \<and> row E' = row E \<and> numrows E' = numrows E"
    then obtain E' where e: "normal_switch c E = Continue E'" "rows_ok E'" "cursor_inv E'"
      "row E' = row E" "numrows E' = numrows E" by blast
    have "rows_ok (E'\<lparr>cmdrep := 0\<rparr>) \<and> cursor_inv (E'\<lparr>cmdrep := 0\<rparr>)
        \<and> row (E'\<lparr>cmdrep := 0\<rparr>) = row E' \<and> numrows (E'\<lparr>cmdrep := 0\<rparr>) = numrows E'"
      by (rule inv_same_cursor[OF _ _ _ _ e(2,3)]) simp_all
    with e show ?thesis unfolding normal_mode_key_other[OF False] by simp
  qed
qed

lemma insert_mode_key_esc: "insert_mode_key (K ESC) E = Continue (E\<lparr>mode := NORMAL_MODE\<rparr>)"
  by (simp add: insert_mode_key_def)

lemma insert_mode_key_arrow:
  "arrow_key c \<Longrightarrow> insert_mode_key c E = lift (editorMoveCursor c E)"
  unfolding arrow_key_def by (elim disjE; hypsubst; simp add: insert_mode_key_def)

lemma insert_mode_key_other:
  "c \<noteq> K ESC \<Longrightarrow> \<not> arrow_key c \<Longrightarrow> insert_mode_key c E = Continue E"
  by (simp add: insert_mode_key_def arrow_key_def)

lemma insert_mode_key_ok:
  assumes r: "rows_ok E" and i: "cursor_inv E"
  shows "\<exists>E'. insert_mode_key c E = Continue E' \<and> rows_ok E' \<and> cursor_inv E'
     \<and> (c = K ESC \<longrightarrow> E' = E\<lparr>mode := NORMAL_MODE\<rparr>)
     \<and> (arrow_key c \<longrightarrow> cursor_only E E')
     \<and> (c \<noteq> K ESC \<longrightarrow> \<not> arrow_key c \<longrightarrow> E' = E)"
proof -
  consider (esc) "c = K ESC" | (arrow) "arrow_key c" | (other) "c \<noteq> K ESC" "\<not> arrow_key c"
    by blast
  then show ?thesis
  proof cases
    case esc
    have a: "\<not> arrow_key (K ESC)" by (simp add: arrow_key_def)
    have "rows_ok (E\<lparr>mode := NORMAL_MODE\<rparr>) \<and> cursor_inv (E\<lparr>mode := NORMAL_MODE\<rparr>)
        \<and> row (E\<lparr>mode := NORMAL_MODE\<rparr>) = row E \<and> numrows (E\<lparr>mode := NORMAL_MODE\<rparr>) = numrows E"
      by (rule inv_same_cursor[OF _ _ _ _ r i]) simp_all
    with a show ?thesis unfolding esc insert_mode_key_esc by simp
  next
    case arrow
    then have ne: "c \<noteq> K ESC" by (auto simp add: arrow_key_def)
    from editorMoveCursor_ok[OF r cursor_inv_weak[OF r i], of c] obtain E' where
      m: "editorMoveCursor c E = Some E'" "cursor_inv E'" "cursor_only E E'" by blast
    from cursor_only_rows_ok[OF m(3) r] m arrow ne
    show ?thesis unfolding insert_mode_key_arrow[OF arrow] by (simp add: lift_Some)
  next
    case other
    with r i show ?thesis unfolding insert_mode_key_other[OF other] by simp
  qed
qed

lemma leave_command_cursor:
  "leave_command E = Continue E' \<Longrightarrow>
   cx E' = cx E \<and> cy E' = cy E \<and> row E' = row E \<and> numrows E' = numrows E"
  by (auto simp add: leave_command_def editorSetStatusMsg_def split: option.splits)

lemma editorCommandModeHandle_Continue:
  "editorCommandModeHandle E = Continue E' \<Longrightarrow> E' = E"
  by (auto simp add: editorCommandModeHandle_def editorExit_def split: option.splits if_splits)

lemma command_mode_key_cursor:
  assumes "command_mode_key w c E = Continue E'"
  shows "cx E' = cx E \<and> cy E' = cy E \<and> row E' = row E \<and> numrows E' = numrows E"
proof -
  consider (enter) "c = 13" | (esc) "c \<noteq> 13" "c = K ESC" | (del) "c \<noteq> 13" "c \<noteq> K ESC" "c = K CHR ''8''"
    | (other) "c \<noteq> 13" "c \<noteq> K ESC" "c \<noteq> K CHR ''8''" by blast
  then show ?thesis
  proof cases
    case enter
    with assms obtain E1 where "editorCommandModeHandle E = Continue E1" "leave_command E1 = Continue E'"
      by (auto simp add: command_mode_key_def split: outcome.splits)
    with editorCommandModeHandle_Continue[of E E1] leave_command_cursor[of E1 E'] show ?thesis by simp
  next
    case esc
    with assms leave_command_cursor[of E E'] show ?thesis by (simp add: command_mode_key_def)
  next
    case del
    with assms show ?thesis by (auto simp add: command_mode_key_def)
  next
    case other
    with assms show ?thesis
      by (auto simp add: command_mode_key_def editorSetStatusMsg_def split: option.splits bool.splits)
  qed
qed

lemma start_no_file_24: "main_start 24 80 None = Continue no_file_24"
  by (simp add: main_start_def no_file_24_def)

lemma start_no_file_2: "main_start 2 80 None = Continue no_file_2"
  by (simp add: main_start_def no_file_2_def)

lemma start_three_rows:
  "main_start 24 80 (Some (''f.txt'', Some three_lines)) = Continue three_rows"
  by (simp add: main_start_def three_rows_def editorOpen_def lift_def editorAppendRow_def
      editorUpdateRow_def count_tabs.simps render_loop.simps pad_tab.simps strip_eol.simps
      row_char_def smod4_nonneg initEditor_def editorSetStatusMsg_def)

lemma down_no_file:
  "main_loop w [ARROW_DOWN] no_file_24 = Continue no_file_24"
  by (simp add: no_file_24_def initEditor_def editorSetStatusMsg_def editorScroll_def
      editorProcessKeypress_def normal_mode_key_def counts_digit_def normal_switch_def ctrl_keys
      lift_def editorMoveCursor_def move_switch_def snap_cursor_def Let_def)

lemma j_no_file:
  "main_loop w [K CHR ''j''] no_file_24 = Continue no_file_24"
  by (simp add: no_file_24_def initEditor_def editorSetStatusMsg_def editorScroll_def
      editorProcessKeypress_def normal_mode_key_def counts_digit_def normal_switch_def ctrl_keys
      lift_def editorMoveCursor_def move_switch_def snap_cursor_def Let_def)

lemma down3_three_rows:
  "main_loop w [ARROW_DOWN, ARROW_DOWN, ARROW_DOWN] three_rows = Continue (three_rows\<lparr>cy := 3\<rparr>)"
  by (simp add: three_rows_def initEditor_def editorSetStatusMsg_def editorScroll_def
      editorProcessKeypress_def normal_mode_key_def counts_digit_def normal_switch_def ctrl_keys
      lift_def editorMoveCursor_def move_switch_def snap_cursor_def Let_def get_row_def
      editorRowCxToRx_def rx_loop.simps)

lemma end_three_rows:
  "main_loop w [K CHR ''$''] (three_rows\<lparr>cy := 3\<rparr>) = Continue (three_rows\<lparr>cy := 3\<rparr>)"
  "main_loop w [END_KEY] (three_rows\<lparr>cy := 3\<rparr>) = Continue (three_rows\<lparr>cy := 3\<rparr>)"
  by (simp_all add: three_rows_def initEditor_def editorSetStatusMsg_def editorScroll_def
      editorProcessKeypress_def normal_mode_key_def counts_digit_def normal_switch_def ctrl_keys
      lift_def Let_def get_row_def)

lemma page_up_two_lines:
  "main_loop w [PAGE_UP] no_file_2 = Continue (no_file_2\<lparr>rowoff := 1, cy := 1\<rparr>)"
  by (simp add: no_file_2_def initEditor_def editorSetStatusMsg_def editorScroll_def
      editorProcessKeypress_def normal_mode_key_def counts_digit_def normal_switch_def ctrl_keys
      lift_def Let_def rounds_def)

lemma page_up_h_two_lines:
  "main_loop w [PAGE_UP, K CHR ''h''] no_file_2 = Undefined"
  by (simp add: no_file_2_def initEditor_def editorSetStatusMsg_def editorScroll_def
      editorProcessKeypress_def normal_mode_key_def counts_digit_def normal_switch_def ctrl_keys
      lift_def Let_def rounds_def editorMoveCursor_def move_switch_def get_row_def)

lemma page_up_left_two_lines:
  "main_loop w [PAGE_UP, ARROW_LEFT] no_file_2 = Undefined"
  by (simp add: no_file_2_def initEditor_def editorSetStatusMsg_def editorScroll_def
      editorProcessKeypress_def normal_mode_key_def counts_digit_def normal_switch_def ctrl_keys
      lift_def Let_def rounds_def editorMoveCursor_def move_switch_def get_row_def)

lemma two_lines_facts:
  "rows_ok no_file_2" "cursor_inv no_file_2" "\<not> cursor_inv (no_file_2\<lparr>rowoff := 1, cy := 1\<rparr>)"
  by (simp_all add: no_file_2_def initEditor_def editorSetStatusMsg_def rows_ok_def cursor_inv_def)

lemma move_switch_frame:
  assumes "move_switch key E = Some E'"
  shows "cursor_only E E'"
proof -
  consider (up) "key = K CHR ''k'' \<or> key = ARROW_UP"
    | (down) "key = K CHR ''j'' \<or> key = ARROW_DOWN"
    | (left) "key = K CHR ''h'' \<or> key = ARROW_LEFT"
    | (right) "key = K CHR ''l'' \<or> key = ARROW_RIGHT"
    | (word) "key = K CHR ''w'' \<or> key = K CHR ''W'' \<or> key = K CHR ''e'' \<or> key = K CHR ''E''"
    | (other) "\<not> (key = K CHR ''k'' \<or> key = ARROW_UP)" "\<not> (key = K CHR ''j'' \<or> key = ARROW_DOWN)"
        "\<not> (key = K CHR ''h'' \<or> key = ARROW_LEFT)" "\<not> (key = K CHR ''l'' \<or> key = ARROW_RIGHT)"
        "\<not> (key = K CHR ''w'' \<or> key = K CHR ''W'' \<or> key = K CHR ''e'' \<or> key = K CHR ''E'')"
    by blast
  then show ?thesis
  proof cases
    case up
    from assms show ?thesis unfolding move_switch_up[OF up]
      by (auto simp add: cursor_only_def)
  next
    case down
    from assms show ?thesis unfolding move_switch_down[OF down]
      by (auto simp add: cursor_only_def)
  next
    case left
    from assms show ?thesis unfolding move_switch_left[OF left]
      by (auto simp add: cursor_only_def split: if_splits option.splits)
  next
    case right
    from assms show ?thesis unfolding move_switch_right[OF right]
      by (auto simp add: cursor_only_def split: if_splits option.splits)
  next
    case word
    from assms obtain x where "E' = E \<or> E' = E\<lparr>cy := cy E + 1, cx := 0\<rparr> \<or> E' = E\<lparr>cx := x\<rparr>"
      unfolding move_switch_wordkey[OF word]
      by (cases "cy E \<ge> numrows E"; cases "get_row E (cy E)") (auto split: option.splits if_splits)
    then show ?thesis by (auto simp add: cursor_only_def)
  next
    case other
    from assms show ?thesis unfolding move_switch_nokey[OF other]
      by (auto simp add: cursor_only_def)
  qed
qed

lemma snap_cursor_frame: "snap_cursor E = Some E' \<Longrightarrow> cursor_only E E'"
  by (auto simp add: snap_cursor_def cursor_only_def split: option.splits if_splits)

lemma editorMoveCursor_frame:
  assumes "editorMoveCursor key E = Some E'"
  shows "cursor_only E E'"
proof -
  from assms obtain E1 where "move_switch key E = Some E1" "snap_cursor E1 = Some E'"
    by (auto simp add: editorMoveCursor_def split: option.splits)
  then show ?thesis
    using cursor_only_trans[OF move_switch_frame snap_cursor_frame] by blast
qed

lemma move_times_frame: "move_times n key E = Some E' \<Longrightarrow> cursor_only E E'"
proof (induction n arbitrary: E)
  case 0
  then show ?case by (simp add: cursor_only_refl)
next
  case (Suc n)
  then obtain E1 where 1: "editorMoveCursor key E = Some E1" "move_times n key E1 = Some E'"
    by (auto split: option.splits)
  from cursor_only_trans[OF editorMoveCursor_frame[OF 1(1)] Suc.IH[OF 1(2)]] show ?case .
qed

lemma cursor_only_store_same: "cursor_only E E' \<Longrightarrow> store_same E E'"
  using cursor_only_fields[of E E'] by (simp add: store_same_def)

lemma store_same_trans: "store_same E E1 \<Longrightarrow> store_same E1 E2 \<Longrightarrow> store_same E E2"
  by (simp add: store_same_def)

lemma lift_Continue: "lift r = Continue E' \<Longrightarrow> r = Some E'"
  by (cases r) (simp_all add: lift_def)

lemma normal_switch_frame:
  assumes "normal_switch c E = Continue E'"
  shows "store_same E E'"
proof -
  consider (ins) "c = K CHR ''i''" | (colon) "c = K CHR '':''" | (quit) "c = CTRL_KEY (K CHR ''q'')"
    | (home) "c = K CHR ''0'' \<or> c = HOME_KEY" | (endk) "c = K CHR ''$'' \<or> c = END_KEY"
    | (pgup) "c = CTRL_KEY (K CHR ''u'') \<or> c = PAGE_UP"
    | (pgdn) "c = CTRL_KEY (K CHR ''d'') \<or> c = PAGE_DOWN"
    | (motion) "motion_key c"
    | (other) "c \<noteq> K CHR ''i''" "c \<noteq> K CHR '':''" "c \<noteq> CTRL_KEY (K CHR ''q'')"
        "\<not> (c = K CHR ''0'' \<or> c = HOME_KEY)" "\<not> (c = K CHR ''$'' \<or> c = END_KEY)"
        "\<not> page_key c" "\<not> motion_key c"
    unfolding page_key_def by blast
  then show ?thesis
  proof cases
    case ins
    from assms show ?thesis unfolding ins normal_switch_i
      by (auto simp add: store_same_def)
  next
    case colon
    from assms show ?thesis unfolding colon normal_switch_colon
      by (auto simp add: store_same_def editorSetStatusMsg_def)
  next
    case quit
    from assms show ?thesis unfolding quit normal_switch_quit
      by (simp add: editorExit_def)
  next
    case home
    from assms show ?thesis unfolding normal_switch_home[OF home]
      by (auto simp add: store_same_def)
  next
    case endk
    from assms show ?thesis unfolding normal_switch_end[OF endk]
      by (auto simp add: store_same_def split: if_splits option.splits)
  next
    case pgup
    from assms have "move_times (rounds (screenrows E)) ARROW_UP (E\<lparr>cy := rowoff E\<rparr>) = Some E'"
      unfolding normal_switch_page_up[OF pgup] by (rule lift_Continue)
    from cursor_only_store_same[OF move_times_frame[OF this]] show ?thesis
      by (simp add: store_same_def)
  next
    case pgdn
    let ?E1 = "if rowoff E + screenrows E - 1 > numrows E then E\<lparr>cy := numrows E\<rparr>
        else E\<lparr>cy := rowoff E + screenrows E - 1\<rparr>"
    from assms have "move_times (rounds (screenrows E)) ARROW_DOWN ?E1 = Some E'"
      unfolding normal_switch_page_down[OF pgdn] by (rule lift_Continue)
    from cursor_only_store_same[OF move_times_frame[OF this]] show ?thesis
      by (simp add: store_same_def split: if_splits)
  next
    case motion
    from assms have "editorMoveCursor c E = Some E'"
      unfolding normal_switch_motion[OF motion] by (rule lift_Continue)
    from cursor_only_store_same[OF editorMoveCursor_frame[OF this]] show ?thesis .
  next
    case other
    from assms show ?thesis unfolding normal_switch_other[OF other]
      by (auto simp add: store_same_def)
  qed
qed

lemma normal_mode_key_frame:
  assumes "normal_mode_key c E = Continue E'"
  shows "store_same E E'"
proof (cases "counts_digit c E")
  case True
  with assms show ?thesis by (auto simp add: normal_mode_key_digit store_same_def)
next
  case False
  with assms obtain E1 where "normal_switch c E = Continue E1" "E' = E1\<lparr>cmdrep := 0\<rparr>"
    by (auto simp add: normal_mode_key_other split: outcome.splits)
  with normal_switch_frame[of c E E1] show ?thesis by (simp add: store_same_def)
qed

lemma insert_mode_key_frame:
  assumes "insert_mode_key c E = Continue E'"
  shows "store_same E E' \<and> (c = K ESC \<longrightarrow> E' = E\<lparr>mode := NORMAL_MODE\<rparr>)
     \<and> (arrow_key c \<longrightarrow> cursor_only E E') \<and> (c \<noteq> K ESC \<longrightarrow> \<not> arrow_key c \<longrightarrow> E' = E)"
proof -
  consider (esc) "c = K ESC" | (arrow) "arrow_key c" | (other) "c \<noteq> K ESC" "\<not> arrow_key c"
    by blast
  then show ?thesis
  proof cases
    case esc
    have a: "\<not> arrow_key (K ESC)" by (simp add: arrow_key_def)
    from assms a show ?thesis unfolding esc insert_mode_key_esc
      by (auto simp add: store_same_def)
  next
    case arrow
    then have ne: "c \<noteq> K ESC" by (auto simp add: arrow_key_def)
    from assms have "editorMoveCursor c E = Some E'"
      unfolding insert_mode_key_arrow[OF arrow] by (rule lift_Continue)
    from editorMoveCursor_frame[OF this] cursor_only_store_same[of E E'] arrow ne
    show ?thesis by simp
  next
    case other
    from assms other show ?thesis unfolding insert_mode_key_other[OF other]
      by (auto simp add: store_same_def)
  qed
qed

lemma command_mode_key_frame:
  assumes "command_mode_key w c E = Continue E'"
  shows "store_same E E' \<and> cx E' = cx E \<and> cy E' = cy E"
proof -
  have l: "store_same X Y \<and> cx Y = cx X \<and> cy Y = cy X" if "leave_command X = Continue Y" for X Y
    using that by (auto simp add: leave_command_def editorSetStatusMsg_def store_same_def split: option.splits)
  consider (enter) "c = 13" | (esc) "c \<noteq> 13" "c = K ESC" | (del) "c \<noteq> 13" "c \<noteq> K ESC" "c = K CHR ''8''"
    | (other) "c \<noteq> 13" "c \<noteq> K ESC" "c \<noteq> K CHR ''8''" by blast
  then show ?thesis
  proof cases
    case enter
    with assms obtain E1 where "editorCommandModeHandle E = Continue E1" "leave_command E1 = Continue E'"
      by (auto simp add: command_mode_key_def split: outcome.splits)
    with editorCommandModeHandle_Continue[of E E1] l[of E1 E'] show ?thesis by simp
  next
    case esc
    with assms l[of E E'] show ?thesis by (simp add: command_mode_key_def)
  next
    case del
    with assms show ?thesis by (auto simp add: command_mode_key_def store_same_def)
  next
    case other
    with assms show ?thesis
      by (auto simp add: command_mode_key_def editorSetStatusMsg_def store_same_def
          split: option.splits bool.splits)
  qed
qed

lemma editorProcessKeypress_frame:
  "editorProcessKeypress w c E = Continue E' \<Longrightarrow> store_same E E'"
  using normal_mode_key_frame[of c E E'] insert_mode_key_frame[of c E E']
    command_mode_key_frame[of w c E E']
  by (cases "mode E") (simp_all add: editorProcessKeypress_def)

section \<open>The cursor bounds\<close>

lemma editorProcessKeypress_keeps_inv:
  assumes r: "rows_ok E" and i: "cursor_inv E"
    and p: "mode E = NORMAL_MODE \<Longrightarrow> page_key c \<Longrightarrow>
      1 \<le> screenrows E \<and> 0 \<le> rowoff E
      \<and> (c = CTRL_KEY (K CHR ''u'') \<or> c = PAGE_UP \<longrightarrow> rowoff E \<le> numrows E)"
    and k: "editorProcessKeypress w c E = Continue E'"
  shows "rows_ok E' \<and> cursor_inv E'"
proof (cases "mode E")
  case NORMAL_MODE
  with k have n: "normal_mode_key c E = Continue E'" by (simp add: editorProcessKeypress_def)
  from normal_mode_key_keeps_inv[where E=E and c=c, OF r i p[OF NORMAL_MODE]] n show ?thesis
    by (auto simp add: editorExit_def)
next
  case INSERT_MODE
  with k have n: "insert_mode_key c E = Continue E'" by (simp add: editorProcessKeypress_def)
  from insert_mode_key_ok[OF r i, of c] n show ?thesis by auto
next
  case COMMAND_MODE
  with k have n: "command_mode_key w c E = Continue E'" by (simp add: editorProcessKeypress_def)
  from command_mode_key_frame[OF n] have "cx E' = cx E" "cy E' = cy E" "row E' = row E" "numrows E' = numrows E"
    by (simp_all add: store_same_def)
  from inv_same_cursor[OF this r i] show ?thesis by simp
qed

lemma editorScroll_rowoff:
  assumes "1 \<le> screenrows E" "0 \<le> rowoff E" "0 \<le> cy E" "editorScroll E = Some E'"
  shows "0 \<le> rowoff E' \<and> rowoff E' \<le> cy E'"
proof -
  from assms(4) obtain x where E': "E' =
            (let E1 = E\<lparr>rx := x\<rparr>;
                 E2 = (if cy E1 < rowoff E1 then E1\<lparr>rowoff := cy E1\<rparr> else E1);
                 E3 = (if cy E2 \<ge> rowoff E2 + screenrows E2
                       then E2\<lparr>rowoff := cy E2 - screenrows E2 + 1\<rparr> else E2);
                 E4 = (if rx E3 < coloff E3 then E3\<lparr>coloff := rx E3\<rparr> else E3)
             in if rx E4 \<ge> coloff E4 + screencols E4
                then E4\<lparr>coloff := rx E4 - screencols E4 + 1\<rparr> else E4)"
    by (rule editorScroll_SomeD)
  show ?thesis unfolding E' using assms(1,2,3) by (simp add: Let_def)
qed

lemma main_round_keeps_inv:
  assumes r: "rows_ok E" and i: "cursor_inv E" and s: "1 \<le> screenrows E" and o: "0 \<le> rowoff E"
    and sc: "editorScroll E = Some E1" and k: "editorProcessKeypress w c E1 = Continue E'"
  shows "rows_ok E' \<and> cursor_inv E' \<and> 1 \<le> screenrows E' \<and> 0 \<le> rowoff E'"
proof -
  from editorScroll_fields[OF sc] have f: "cx E1 = cx E" "cy E1 = cy E" "row E1 = row E"
    "numrows E1 = numrows E" "screenrows E1 = screenrows E" by simp_all
  from inv_same_cursor[OF f(1-4) r i] have r1: "rows_ok E1" and i1: "cursor_inv E1" by simp_all
  from i have "0 \<le> cy E" "cy E \<le> numrows E" by (simp_all add: cursor_inv_def)
  with editorScroll_rowoff[OF s o _ sc] f
  have v: "1 \<le> screenrows E1 \<and> 0 \<le> rowoff E1 \<and> rowoff E1 \<le> numrows E1" using s by simp
  from editorProcessKeypress_keeps_inv[OF r1 i1 _ k] v have "rows_ok E' \<and> cursor_inv E'" by blast
  moreover from editorProcessKeypress_frame[OF k] v have "1 \<le> screenrows E' \<and> 0 \<le> rowoff E'"
    by (simp add: store_same_def)
  ultimately show ?thesis by simp
qed

lemma main_loop_keeps_inv:
  "rows_ok E \<Longrightarrow> cursor_inv E \<Longrightarrow> 1 \<le> screenrows E \<Longrightarrow> 0 \<le> rowoff E \<Longrightarrow>
   main_loop w cs E = Continue E' \<Longrightarrow> rows_ok E' \<and> cursor_inv E'"
proof (induction cs arbitrary: E)
  case Nil
  then show ?case by simp
next
  case (Cons c cs)
  from Cons.prems(5) obtain E1 E2 where
    1: "editorScroll E = Some E1" "editorProcessKeypress w c E1 = Continue E2"
      "main_loop w cs E2 = Continue E'"
    by (auto split: option.splits outcome.splits)
  from main_round_keeps_inv[OF Cons.prems(1-4) 1(1,2)] Cons.IH[OF _ _ _ _ 1(3)]
  show ?case by simp
qed

lemma one_text_row_facts:
  "rows_ok one_text_row" "cursor_inv one_text_row" "mode one_text_row = NORMAL_MODE"
  "page_key PAGE_DOWN" "1 \<le> screenrows one_text_row" "0 \<le> rowoff one_text_row"
  "rowoff one_text_row \<le> numrows one_text_row"
  by (simp_all add: one_text_row_def three_rows_def initEditor_def editorSetStatusMsg_def
      rows_ok_def cursor_inv_def page_key_def)

lemma one_text_row_page_down:
  "editorProcessKeypress w PAGE_DOWN one_text_row = Continue (one_text_row\<lparr>cy := 1\<rparr>)"
  by (simp add: one_text_row_def three_rows_def initEditor_def editorSetStatusMsg_def
      editorProcessKeypress_def normal_mode_key_def counts_digit_def normal_switch_def ctrl_keys
      lift_def editorMoveCursor_def move_switch_def snap_cursor_def Let_def get_row_def rounds_def)

lemma one_text_row_page_up:
  "editorProcessKeypress w PAGE_UP one_text_row = Continue one_text_row"
  by (simp add: one_text_row_def three_rows_def initEditor_def editorSetStatusMsg_def
      editorProcessKeypress_def normal_mode_key_def counts_digit_def normal_switch_def ctrl_keys
      lift_def editorMoveCursor_def move_switch_def snap_cursor_def Let_def get_row_def rounds_def)

lemma editorProcessKeypress_defined:
  assumes r: "rows_ok E" and i: "cursor_inv E"
    and p: "mode E = NORMAL_MODE \<Longrightarrow> page_key c \<Longrightarrow>
      1 \<le> screenrows E \<and> 0 \<le> rowoff E
      \<and> (c = CTRL_KEY (K CHR ''u'') \<or> c = PAGE_UP \<longrightarrow> rowoff E \<le> numrows E)"
    and m: "mode E \<noteq> COMMAND_MODE"
  shows "editorProcessKeypress w c E = editorExit \<or> (\<exists>E'. editorProcessKeypress w c E = Continue E')"
proof (cases "mode E")
  case NORMAL_MODE
  from normal_mode_key_keeps_inv[where E=E and c=c, OF r i p[OF NORMAL_MODE]] NORMAL_MODE show ?thesis
    by (auto simp add: editorProcessKeypress_def)
next
  case INSERT_MODE
  from insert_mode_key_ok[OF r i, of c] INSERT_MODE show ?thesis
    by (auto simp add: editorProcessKeypress_def)
next
  case COMMAND_MODE
  with m show ?thesis by simp
qed

text \<open>
  C3. With a well-formed row store, the cursor bounds \<open>0 \<le> cy \<le> numrows\<close> and
  \<open>0 \<le> cx \<le>\<close> (length of row \<open>cy\<close>, or 0 at \<open>cy = numrows\<close>) are preserved by
  every processed keypress in every mode but for the page keys of Normal mode:
  PageDown and Ctrl-D preserve them when \<open>screenrows \<ge> 1\<close> and \<open>rowoff \<ge> 0\<close>, PageUp
  and Ctrl-U when moreover \<open>rowoff \<le> numrows\<close>, for PageUp sets \<open>cy\<close> to the row offset
  and bounds it nowhere. In Normal and Insert mode the keypress then ends in the
  next state or in the exit of Ctrl-Q. On a screen with at least one text row and a
  row offset that is not negative, every run of the main loop (scroll, then key)
  preserves the bounds. With no file, Down leaves \<open>cy = 0\<close>; with three rows, three
  times Down from row 0 leaves \<open>cy = 3\<close>, and \<open>$\<close> or End then leaves \<open>cx = 0\<close>.
\<close>

theorem cursor_bounds_preserved:
  "(rows_ok E \<longrightarrow> cursor_inv E \<longrightarrow>
      (mode E = NORMAL_MODE \<longrightarrow> page_key c \<longrightarrow>
         1 \<le> screenrows E \<and> 0 \<le> rowoff E
         \<and> (c = CTRL_KEY (K CHR ''u'') \<or> c = PAGE_UP \<longrightarrow> rowoff E \<le> numrows E)) \<longrightarrow>
      (\<forall>E'. editorProcessKeypress w c E = Continue E' \<longrightarrow> rows_ok E' \<and> cursor_inv E')
      \<and> (mode E \<noteq> COMMAND_MODE \<longrightarrow>
           editorProcessKeypress w c E = editorExit
           \<or> (\<exists>E'. editorProcessKeypress w c E = Continue E')))
   \<and> (rows_ok E \<longrightarrow> cursor_inv E \<longrightarrow> 1 \<le> screenrows E \<longrightarrow> 0 \<le> rowoff E \<longrightarrow>
      (\<forall>E'. main_loop w cs E = Continue E' \<longrightarrow> rows_ok E' \<and> cursor_inv E'))
   \<and> main_start 24 80 None = Continue no_file_24
   \<and> numrows no_file_24 = 0
   \<and> main_loop w [ARROW_DOWN] no_file_24 = Continue no_file_24
   \<and> cy no_file_24 = 0
   \<and> main_start 24 80 (Some (''f.txt'', Some three_lines)) = Continue three_rows
   \<and> numrows three_rows = 3 \<and> cy three_rows = 0
   \<and> main_loop w [ARROW_DOWN, ARROW_DOWN, ARROW_DOWN] three_rows = Continue (three_rows\<lparr>cy := 3\<rparr>)
   \<and> main_loop w [K CHR ''$''] (three_rows\<lparr>cy := 3\<rparr>) = Continue (three_rows\<lparr>cy := 3\<rparr>)
   \<and> main_loop w [END_KEY] (three_rows\<lparr>cy := 3\<rparr>) = Continue (three_rows\<lparr>cy := 3\<rparr>)
   \<and> cx (three_rows\<lparr>cy := 3\<rparr>) = 0"
proof -
  have a: "(\<forall>E'. editorProcessKeypress w c E = Continue E' \<longrightarrow> rows_ok E' \<and> cursor_inv E')
      \<and> (mode E \<noteq> COMMAND_MODE \<longrightarrow>
           editorProcessKeypress w c E = editorExit
           \<or> (\<exists>E'. editorProcessKeypress w c E = Continue E'))"
    if "rows_ok E" "cursor_inv E"
      "mode E = NORMAL_MODE \<longrightarrow> page_key c \<longrightarrow>
         1 \<le> screenrows E \<and> 0 \<le> rowoff E
         \<and> (c = CTRL_KEY (K CHR ''u'') \<or> c = PAGE_UP \<longrightarrow> rowoff E \<le> numrows E)"
    using editorProcessKeypress_keeps_inv[OF that(1,2), of c w]
      editorProcessKeypress_defined[OF that(1,2), of c w] that(3) by blast
  have b: "\<forall>E'. main_loop w cs E = Continue E' \<longrightarrow> rows_ok E' \<and> cursor_inv E'"
    if "rows_ok E" "cursor_inv E" "1 \<le> screenrows E" "0 \<le> rowoff E"
    using main_loop_keeps_inv[OF that] by blast
  have c: "numrows no_file_24 = 0" "cy no_file_24 = 0" "numrows three_rows = 3"
    "cy three_rows = 0" "cx (three_rows\<lparr>cy := 3\<rparr>) = 0"
    by (simp_all add: no_file_24_def three_rows_def initEditor_def editorSetStatusMsg_def)
  show ?thesis
    using a b c start_no_file_24 down_no_file start_three_rows down3_three_rows end_three_rows
    by blast
qed

theorem cursor_bounds_preserved_witness:
  "rows_ok one_text_row \<and> cursor_inv one_text_row \<and> mode one_text_row = NORMAL_MODE
   \<and> page_key PAGE_DOWN \<and> page_key PAGE_UP
   \<and> 1 \<le> screenrows one_text_row \<and> 0 \<le> rowoff one_text_row
   \<and> rowoff one_text_row \<le> numrows one_text_row
   \<and> editorProcessKeypress plain_world PAGE_DOWN one_text_row = Continue (one_text_row\<lparr>cy := 1\<rparr>)
   \<and> rows_ok (one_text_row\<lparr>cy := 1\<rparr>) \<and> cursor_inv (one_text_row\<lparr>cy := 1\<rparr>)
   \<and> editorProcessKeypress plain_world PAGE_UP one_text_row = Continue one_text_row"
proof -
  have p: "page_key PAGE_UP" by (simp add: page_key_def)
  show ?thesis
    using cursor_bounds_preserved [of one_text_row PAGE_DOWN plain_world "[]"]
      cursor_bounds_preserved [of one_text_row PAGE_UP plain_world "[]"]
      one_text_row_facts one_text_row_page_down [of plain_world]
      one_text_row_page_up [of plain_world] p
    by blast
qed

text \<open>
  The bounds are not preserved from every state that satisfies them. In a window of
  two lines \<open>screenrows\<close> is 0; \<open>editorScroll\<close> moves the row offset to 1, PageUp
  puts the cursor there and the loop of cursor moves that would bound it runs zero
  times: \<open>cy = 1\<close> with \<open>numrows = 0\<close> and no row allocated. PageDown bounds \<open>cy\<close> by
  \<open>numrows\<close> before its loop, PageUp does not. The next \<open>h\<close> or Left finds
  \<open>cx = 0\<close> and \<open>cy > 0\<close>, steps up to row 0 and reads \<^verbatim>\<open>E.row[0].size\<close>, a row that
  does not exist.
\<close>

theorem cursor_bounds_counterexample:
  "main_start 2 80 None = Continue no_file_2
   \<and> rows_ok no_file_2 \<and> cursor_inv no_file_2
   \<and> screenrows no_file_2 = 0 \<and> numrows no_file_2 = 0 \<and> row no_file_2 = []
   \<and> editorScroll no_file_2 = Some (no_file_2\<lparr>rowoff := 1\<rparr>)
   \<and> rows_ok (no_file_2\<lparr>rowoff := 1\<rparr>) \<and> cursor_inv (no_file_2\<lparr>rowoff := 1\<rparr>)
   \<and> editorProcessKeypress plain_world PAGE_UP (no_file_2\<lparr>rowoff := 1\<rparr>)
       = Continue (no_file_2\<lparr>rowoff := 1, cy := 1\<rparr>)
   \<and> main_loop plain_world [PAGE_UP] no_file_2 = Continue (no_file_2\<lparr>rowoff := 1, cy := 1\<rparr>)
   \<and> \<not> cursor_inv (no_file_2\<lparr>rowoff := 1, cy := 1\<rparr>)
   \<and> main_loop plain_world [PAGE_UP, K CHR ''h''] no_file_2 = Undefined
   \<and> main_loop plain_world [PAGE_UP, ARROW_LEFT] no_file_2 = Undefined"
proof -
  have 1: "editorScroll no_file_2 = Some (no_file_2\<lparr>rowoff := 1\<rparr>)"
    by (simp add: no_file_2_def initEditor_def editorSetStatusMsg_def editorScroll_def Let_def)
  have 2: "editorProcessKeypress plain_world PAGE_UP (no_file_2\<lparr>rowoff := 1\<rparr>)
       = Continue (no_file_2\<lparr>rowoff := 1, cy := 1\<rparr>)"
    by (simp add: no_file_2_def initEditor_def editorSetStatusMsg_def
      editorProcessKeypress_def normal_mode_key_def counts_digit_def normal_switch_def ctrl_keys
      lift_def Let_def rounds_def)
  have 3: "rows_ok (no_file_2\<lparr>rowoff := 1\<rparr>)" "cursor_inv (no_file_2\<lparr>rowoff := 1\<rparr>)"
    by (simp_all add: no_file_2_def initEditor_def editorSetStatusMsg_def rows_ok_def cursor_inv_def)
  have 4: "screenrows no_file_2 = 0" "numrows no_file_2 = 0" "row no_file_2 = []"
    by (simp_all add: no_file_2_def initEditor_def editorSetStatusMsg_def)
  show ?thesis
    using 1 2 3 4 start_no_file_2 two_lines_facts page_up_two_lines[of plain_world]
      page_up_h_two_lines[of plain_world] page_up_left_two_lines[of plain_world]
    by blast
qed

section \<open>The repeat count\<close>

lemma sint_times10_plus:
  fixes a :: "32 word"
  assumes "0 \<le> sint a" "0 \<le> d" "sint a * 10 + d < 2 ^ 31"
  shows "sint (a * 10 + word_of_int d) = sint a * 10 + d"
proof -
  have d: "signed_take_bit 31 d = d"
    using assms by (intro signed_take_bit_int_eq_self) auto
  have m: "signed_take_bit 31 (sint a * 10) = sint a * 10"
    using assms by (intro signed_take_bit_int_eq_self) auto
  have s: "signed_take_bit 31 (sint a * 10 + d) = sint a * 10 + d"
    using assms by (intro signed_take_bit_int_eq_self) auto
  have "sint (a * 10 + word_of_int d) = signed_take_bit 31 (sint (a * 10) + sint (word_of_int d :: 32 word))"
    by (simp add: sint_word_ariths)
  also have "sint (a * 10) = signed_take_bit 31 (sint a * sint (10 :: 32 word))"
    by (simp add: sint_word_ariths)
  also have "sint (10 :: 32 word) = 10" by simp
  also have "sint (word_of_int d :: 32 word) = signed_take_bit 31 d"
    by (simp add: sint_sbintrunc')
  finally show ?thesis by (simp add: d m s)
qed

lemma counts_digit_iff:
  "counts_digit c E \<longleftrightarrow> (K CHR ''1'' \<le> c \<and> c \<le> K CHR ''9'') \<or> (c = K CHR ''0'' \<and> cmdrep E \<noteq> 0)"
  by (auto simp add: counts_digit_def)

lemma normal_digit:
  "mode E = NORMAL_MODE \<Longrightarrow> counts_digit c E \<Longrightarrow>
   editorProcessKeypress w c E =
     Continue (E\<lparr>cmdrep := cmdrep E * 10 + word_of_int (c - K CHR ''0'')\<rparr>)"
  by (simp add: editorProcessKeypress_def normal_mode_key_digit)

lemma normal_nondigit:
  assumes "mode E = NORMAL_MODE" "\<not> counts_digit c E" "editorProcessKeypress w c E = Continue E'"
  shows "cmdrep E' = 0"
  using assms
  by (auto simp add: editorProcessKeypress_def normal_mode_key_other split: outcome.splits)

lemma one_two:
  assumes "mode E = NORMAL_MODE" "cmdrep E = 0"
  shows "editorProcessKeypress w (K CHR ''1'') E = Continue (E\<lparr>cmdrep := 1\<rparr>)"
    "editorProcessKeypress w (K CHR ''2'') (E\<lparr>cmdrep := 1\<rparr>) = Continue (E\<lparr>cmdrep := 12\<rparr>)"
  using assms
  by (simp_all add: editorProcessKeypress_def normal_mode_key_def counts_digit_def editorNormalModeNumRep_def)

lemma one_two_loop:
  "main_loop w [K CHR ''1'', K CHR ''2''] no_file_24 = Continue (no_file_24\<lparr>cmdrep := 12\<rparr>)"
  by (simp add: no_file_24_def initEditor_def editorSetStatusMsg_def editorScroll_def
      editorProcessKeypress_def normal_mode_key_def counts_digit_def editorNormalModeNumRep_def Let_def)

lemma one_two_w:
  "main_loop w [K CHR ''1'', K CHR ''2'', K CHR ''w''] three_rows = Continue (three_rows\<lparr>cy := 1\<rparr>)"
  by (simp add: three_rows_def initEditor_def editorSetStatusMsg_def editorScroll_def
      editorProcessKeypress_def normal_mode_key_def counts_digit_def editorNormalModeNumRep_def Let_def
      normal_switch_def ctrl_keys lift_def editorMoveCursor_def move_switch_def snap_cursor_def get_row_def
      editorRowCxToRx_def rx_loop.simps skip_word.simps skip_spaces.simps row_char_def isspace_def ispunct_def)

lemma one_two_unknown:
  "main_loop w [K CHR ''1'', K CHR ''2'', K CHR ''z''] no_file_24 = Continue no_file_24"
  by (simp add: no_file_24_def initEditor_def editorSetStatusMsg_def editorScroll_def
      editorProcessKeypress_def normal_mode_key_def counts_digit_def editorNormalModeNumRep_def
      normal_switch_def ctrl_keys Let_def)

text \<open>
  C5. In Normal mode a key is taken as a digit of the repeat count exactly when it is
  \<open>1\<close> to \<open>9\<close>, or \<open>0\<close> while the count is not zero; the keypress then sets the
  count to \<open>count * 10 + digit\<close> (in the arithmetic of \<^verbatim>\<open>int\<close>, which is the sum in
  the integers as long as that fits) and changes nothing else. From a zero count
  \<open>1\<close> then \<open>2\<close> give 12. Any other key in Normal mode that leaves a next state
  leaves it with the count 0, and with rows and cursor in order it does leave one
  unless it is Ctrl-Q; after \<open>1\<close>, \<open>2\<close> the motion \<open>w\<close> moves the cursor and the
  unbound key \<open>z\<close> does nothing, and both leave the count 0.
\<close>

theorem repeat_count:
  "(counts_digit c E \<longleftrightarrow>
      (K CHR ''1'' \<le> c \<and> c \<le> K CHR ''9'') \<or> (c = K CHR ''0'' \<and> cmdrep E \<noteq> 0))
   \<and> (mode E = NORMAL_MODE \<longrightarrow> counts_digit c E \<longrightarrow>
        editorProcessKeypress w c E =
          Continue (E\<lparr>cmdrep := cmdrep E * 10 + word_of_int (c - K CHR ''0'')\<rparr>))
   \<and> (counts_digit c E \<longrightarrow> 0 \<le> sint (cmdrep E) \<longrightarrow>
        sint (cmdrep E) * 10 + (c - K CHR ''0'') < 2 ^ 31 \<longrightarrow>
        sint (cmdrep E * 10 + word_of_int (c - K CHR ''0'')) =
          sint (cmdrep E) * 10 + (c - K CHR ''0''))
   \<and> (mode E = NORMAL_MODE \<longrightarrow> cmdrep E = 0 \<longrightarrow>
        editorProcessKeypress w (K CHR ''1'') E = Continue (E\<lparr>cmdrep := 1\<rparr>)
        \<and> editorProcessKeypress w (K CHR ''2'') (E\<lparr>cmdrep := 1\<rparr>) = Continue (E\<lparr>cmdrep := 12\<rparr>))
   \<and> main_loop w [K CHR ''1'', K CHR ''2''] no_file_24 = Continue (no_file_24\<lparr>cmdrep := 12\<rparr>)
   \<and> (mode E = NORMAL_MODE \<longrightarrow> \<not> counts_digit c E \<longrightarrow>
        (\<forall>E'. editorProcessKeypress w c E = Continue E' \<longrightarrow> cmdrep E' = 0))
   \<and> (mode E = NORMAL_MODE \<longrightarrow> \<not> counts_digit c E \<longrightarrow> rows_ok E \<longrightarrow> cursor_inv E \<longrightarrow>
        (page_key c \<longrightarrow> 1 \<le> screenrows E \<and> 0 \<le> rowoff E \<and> rowoff E \<le> numrows E) \<longrightarrow>
        c \<noteq> CTRL_KEY (K CHR ''q'') \<longrightarrow>
        (\<exists>E'. editorProcessKeypress w c E = Continue E' \<and> cmdrep E' = 0))
   \<and> main_loop w [K CHR ''1'', K CHR ''2'', K CHR ''w''] three_rows = Continue (three_rows\<lparr>cy := 1\<rparr>)
   \<and> cmdrep (three_rows\<lparr>cy := 1\<rparr>) = 0
   \<and> main_loop w [K CHR ''1'', K CHR ''2'', K CHR ''z''] no_file_24 = Continue no_file_24
   \<and> cmdrep no_file_24 = 0"
proof -
  have s: "sint (cmdrep E * 10 + word_of_int (c - K CHR ''0'')) =
          sint (cmdrep E) * 10 + (c - K CHR ''0'')"
    if "counts_digit c E" "0 \<le> sint (cmdrep E)"
      "sint (cmdrep E) * 10 + (c - K CHR ''0'') < 2 ^ 31"
  proof -
    from that(1) have "0 \<le> c - K CHR ''0''" by (auto simp add: counts_digit_def)
    from sint_times10_plus[OF that(2) this that(3)] show ?thesis .
  qed
  have d: "\<exists>E'. editorProcessKeypress w c E = Continue E' \<and> cmdrep E' = 0"
    if m: "mode E = NORMAL_MODE" and n: "\<not> counts_digit c E" and r: "rows_ok E" "cursor_inv E"
      and p: "page_key c \<longrightarrow> 1 \<le> screenrows E \<and> 0 \<le> rowoff E \<and> rowoff E \<le> numrows E"
      and q: "c \<noteq> CTRL_KEY (K CHR ''q'')"
  proof -
    from normal_switch_keeps_inv[OF r, of c] p
    have "normal_switch c E = editorExit \<or> (\<exists>E'. normal_switch c E = Continue E')" by blast
    moreover have "normal_switch c E \<noteq> editorExit"
    proof
      assume e: "normal_switch c E = editorExit"
      from e q show False
        by (auto simp add: normal_switch_def editorExit_def lift_def Let_def
            split: if_splits option.splits)
    qed
    ultimately obtain E1 where "normal_switch c E = Continue E1" by blast
    with m n show ?thesis
      by (simp add: editorProcessKeypress_def normal_mode_key_other)
  qed
  have c0: "cmdrep (three_rows\<lparr>cy := 1\<rparr>) = 0" "cmdrep no_file_24 = 0"
    by (simp_all add: three_rows_def no_file_24_def initEditor_def editorSetStatusMsg_def)
  show ?thesis
    using counts_digit_iff[of c E] normal_digit[of E c w] s one_two[of E w] one_two_loop[of w]
      normal_nondigit[of E c w] d one_two_w[of w] one_two_unknown[of w] c0
    by blast
qed

theorem repeat_count_witness:
  "mode (no_file_24\<lparr>cmdrep := 1\<rparr>) = NORMAL_MODE
   \<and> counts_digit (K CHR ''0'') (no_file_24\<lparr>cmdrep := 1\<rparr>)
   \<and> editorProcessKeypress plain_world (K CHR ''0'') (no_file_24\<lparr>cmdrep := 1\<rparr>)
       = Continue (no_file_24\<lparr>cmdrep := 10\<rparr>)
   \<and> mode no_file_24 = NORMAL_MODE \<and> cmdrep no_file_24 = 0
   \<and> \<not> counts_digit (K CHR ''0'') no_file_24
   \<and> rows_ok no_file_24 \<and> cursor_inv no_file_24
   \<and> (\<exists>E'. editorProcessKeypress plain_world (K CHR ''0'') no_file_24 = Continue E' \<and> cmdrep E' = 0)
   \<and> editorProcessKeypress plain_world (K CHR ''2'') (no_file_24\<lparr>cmdrep := 1\<rparr>)
       = Continue (no_file_24\<lparr>cmdrep := 12\<rparr>)"
proof -
  have f: "mode (no_file_24\<lparr>cmdrep := 1\<rparr>) = NORMAL_MODE"
    "counts_digit (K CHR ''0'') (no_file_24\<lparr>cmdrep := 1\<rparr>)"
    "mode no_file_24 = NORMAL_MODE" "cmdrep no_file_24 = 0"
    "\<not> counts_digit (K CHR ''0'') no_file_24" "rows_ok no_file_24" "cursor_inv no_file_24"
    "\<not> page_key (K CHR ''0'')" "K CHR ''0'' \<noteq> CTRL_KEY (K CHR ''q'')"
    by (simp_all add: no_file_24_def initEditor_def editorSetStatusMsg_def counts_digit_def
        rows_ok_def cursor_inv_def page_key_def ctrl_keys)
  have g: "(no_file_24\<lparr>cmdrep := 1\<rparr>)\<lparr>cmdrep := cmdrep (no_file_24\<lparr>cmdrep := 1\<rparr>) * 10
      + word_of_int (K CHR ''0'' - K CHR ''0'')\<rparr> = no_file_24\<lparr>cmdrep := 10\<rparr>"
    by simp
  show ?thesis
    using repeat_count [of "K CHR ''0''" "no_file_24\<lparr>cmdrep := 1\<rparr>" plain_world]
      repeat_count [of "K CHR ''0''" no_file_24 plain_world] f g
    by metis
qed

section \<open>Insert mode and the keys without a motion\<close>

lemma insert_mode_defined:
  "rows_ok E \<Longrightarrow> cursor_inv E \<Longrightarrow> mode E = INSERT_MODE \<Longrightarrow>
   \<exists>E'. editorProcessKeypress w c E = Continue E'"
  using insert_mode_key_ok[of E c] by (auto simp add: editorProcessKeypress_def)

lemma insert_mode_frame:
  assumes "mode E = INSERT_MODE" "editorProcessKeypress w c E = Continue E'"
  shows "row E' = row E \<and> numrows E' = numrows E
     \<and> (c = K ESC \<longrightarrow> E' = E\<lparr>mode := NORMAL_MODE\<rparr>)
     \<and> (arrow_key c \<longrightarrow> cursor_only E E')
     \<and> (c \<noteq> K ESC \<longrightarrow> \<not> arrow_key c \<longrightarrow> E' = E)"
proof -
  from assms have "insert_mode_key c E = Continue E'" by (simp add: editorProcessKeypress_def)
  from insert_mode_key_frame[OF this] show ?thesis by (simp add: store_same_def)
qed

lemma insert_mode_never_exits:
  "mode E = INSERT_MODE \<Longrightarrow> editorProcessKeypress w c E \<noteq> Exited out status"
  by (auto simp add: editorProcessKeypress_def insert_mode_key_def lift_def split: option.splits)

lemma insert_typed_char:
  "editorProcessKeypress w (K CHR ''x'') (three_rows\<lparr>mode := INSERT_MODE\<rparr>)
     = Continue (three_rows\<lparr>mode := INSERT_MODE\<rparr>)"
  by (simp add: editorProcessKeypress_def insert_mode_key_def)

lemma insert_arrow_right:
  "editorProcessKeypress w ARROW_RIGHT (three_rows\<lparr>mode := INSERT_MODE\<rparr>)
     = Continue (three_rows\<lparr>mode := INSERT_MODE, cx := 1\<rparr>)"
  by (simp add: three_rows_def initEditor_def editorSetStatusMsg_def editorProcessKeypress_def
      insert_mode_key_def lift_def editorMoveCursor_def move_switch_def snap_cursor_def get_row_def)

text \<open>
  C9. While the mode is Insert, a keypress never ends the process, and the state it
  leaves has the row store of the state before (\<open>numrows\<close> and every row with its
  \<open>chars\<close>, \<open>size\<close>, \<open>render\<close> and \<open>rsize\<close>): after ESC it is the old state in Normal
  mode, after an arrow key it differs from the old state in \<open>cx\<close> and \<open>cy\<close> at most,
  after any other key it is the old state. With rows and cursor in order every key
  leaves such a state. Typing \<open>x\<close> changes nothing; the right arrow moves the cursor.
\<close>

theorem insert_mode_frame_effect:
  "(mode E = INSERT_MODE \<longrightarrow>
      (\<forall>E'. editorProcessKeypress w c E = Continue E' \<longrightarrow>
         row E' = row E \<and> numrows E' = numrows E
         \<and> (c = K ESC \<longrightarrow> E' = E\<lparr>mode := NORMAL_MODE\<rparr>)
         \<and> (arrow_key c \<longrightarrow> cursor_only E E')
         \<and> (c \<noteq> K ESC \<longrightarrow> \<not> arrow_key c \<longrightarrow> E' = E))
      \<and> (\<forall>out status. editorProcessKeypress w c E \<noteq> Exited out status)
      \<and> (rows_ok E \<longrightarrow> cursor_inv E \<longrightarrow> (\<exists>E'. editorProcessKeypress w c E = Continue E')))
   \<and> editorProcessKeypress w (K CHR ''x'') (three_rows\<lparr>mode := INSERT_MODE\<rparr>)
       = Continue (three_rows\<lparr>mode := INSERT_MODE\<rparr>)
   \<and> editorProcessKeypress w ARROW_RIGHT (three_rows\<lparr>mode := INSERT_MODE\<rparr>)
       = Continue (three_rows\<lparr>mode := INSERT_MODE, cx := 1\<rparr>)"
  using insert_mode_frame[of E w c] insert_mode_never_exits[of E w c]
    insert_mode_defined[of E w c] insert_typed_char[of w] insert_arrow_right[of w]
  by blast

theorem insert_mode_frame_effect_witness:
  "mode (three_rows\<lparr>mode := INSERT_MODE\<rparr>) = INSERT_MODE
   \<and> rows_ok (three_rows\<lparr>mode := INSERT_MODE\<rparr>) \<and> cursor_inv (three_rows\<lparr>mode := INSERT_MODE\<rparr>)
   \<and> arrow_key ARROW_RIGHT
   \<and> editorProcessKeypress plain_world ARROW_RIGHT (three_rows\<lparr>mode := INSERT_MODE\<rparr>)
       = Continue (three_rows\<lparr>mode := INSERT_MODE, cx := 1\<rparr>)
   \<and> row (three_rows\<lparr>mode := INSERT_MODE, cx := 1\<rparr>) = row (three_rows\<lparr>mode := INSERT_MODE\<rparr>)
   \<and> cursor_only (three_rows\<lparr>mode := INSERT_MODE\<rparr>) (three_rows\<lparr>mode := INSERT_MODE, cx := 1\<rparr>)"
proof -
  have f: "mode (three_rows\<lparr>mode := INSERT_MODE\<rparr>) = INSERT_MODE"
    "rows_ok (three_rows\<lparr>mode := INSERT_MODE\<rparr>)" "cursor_inv (three_rows\<lparr>mode := INSERT_MODE\<rparr>)"
    "arrow_key ARROW_RIGHT"
    by (simp_all add: three_rows_def initEditor_def editorSetStatusMsg_def rows_ok_def
        cursor_inv_def arrow_key_def)
  show ?thesis
    using insert_mode_frame_effect [of "three_rows\<lparr>mode := INSERT_MODE\<rparr>" plain_world ARROW_RIGHT] f
    by metis
qed

lemma move_b_noop:
  assumes "rows_ok E" "cursor_inv E" "c = K CHR ''b'' \<or> c = K CHR ''B''"
  shows "move_switch c E = Some E \<and> editorMoveCursor c E = Some E"
proof -
  from assms(3) have ms: "move_switch c E = Some E"
    by (elim disjE; hypsubst; simp add: move_switch_def)
  from assms(2) have b: "0 \<le> cy E" "cy E \<le> numrows E" "0 \<le> cx E"
    "cx E \<le> (if cy E < numrows E then size_e (row E ! nat (cy E)) else 0)"
    by (simp_all add: cursor_inv_def)
  have sn: "snap_cursor E = Some E"
  proof (cases "cy E \<ge> numrows E")
    case True
    with b show ?thesis by (simp add: snap_cursor_def)
  next
    case False
    with b assms(1) have "get_row E (cy E) = Some (row E ! nat (cy E))"
      by (simp add: get_row_Some)
    with False b show ?thesis by (simp add: snap_cursor_def)
  qed
  from ms sn show ?thesis by (simp add: editorMoveCursor_def)
qed

lemma normal_b_noop:
  assumes "mode E = NORMAL_MODE" "rows_ok E" "cursor_inv E" "c = K CHR ''b'' \<or> c = K CHR ''B''"
  shows "motion_key c \<and> editorProcessKeypress w c E = Continue (E\<lparr>cmdrep := 0\<rparr>)"
proof -
  from assms(4) have m: "motion_key c" and nd: "\<not> counts_digit c E"
    by (auto simp add: motion_key_def counts_digit_def)
  from move_b_noop[OF assms(2,3,4)] have "editorMoveCursor c E = Some E" by simp
  with assms(1) m nd show ?thesis
    by (simp add: editorProcessKeypress_def normal_mode_key_other normal_switch_motion lift_Some)
qed

text \<open>
  C10. In Normal mode, from a state with a well-formed row store and the cursor within
  its bounds, the keys \<open>b\<close> and \<open>B\<close> go to \<open>editorMoveCursor\<close>, whose \<open>switch\<close> has no
  case for them and whose last step finds the column in range: the state that follows
  is the old one with the repeat count set to 0.
\<close>

theorem b_keys_are_noops:
  "mode E = NORMAL_MODE \<longrightarrow> rows_ok E \<longrightarrow> cursor_inv E \<longrightarrow>
   (c = K CHR ''b'' \<or> c = K CHR ''B'') \<longrightarrow>
   motion_key c \<and> move_switch c E = Some E \<and> editorMoveCursor c E = Some E
   \<and> editorProcessKeypress w c E = Continue (E\<lparr>cmdrep := 0\<rparr>)"
  using move_b_noop[of E c] normal_b_noop[of E c w] by blast

theorem b_keys_are_noops_witness:
  "mode (three_rows\<lparr>cmdrep := 7\<rparr>) = NORMAL_MODE \<and> rows_ok (three_rows\<lparr>cmdrep := 7\<rparr>)
   \<and> cursor_inv (three_rows\<lparr>cmdrep := 7\<rparr>)
   \<and> editorProcessKeypress plain_world (K CHR ''b'') (three_rows\<lparr>cmdrep := 7\<rparr>) = Continue three_rows"
proof -
  have f: "mode (three_rows\<lparr>cmdrep := 7\<rparr>) = NORMAL_MODE" "rows_ok (three_rows\<lparr>cmdrep := 7\<rparr>)"
    "cursor_inv (three_rows\<lparr>cmdrep := 7\<rparr>)"
    by (simp_all add: three_rows_def initEditor_def editorSetStatusMsg_def rows_ok_def cursor_inv_def)
  have g: "(three_rows\<lparr>cmdrep := 7\<rparr>)\<lparr>cmdrep := 0\<rparr> = three_rows"
    by (simp add: three_rows_def initEditor_def editorSetStatusMsg_def)
  show ?thesis
    using b_keys_are_noops [of "three_rows\<lparr>cmdrep := 7\<rparr>" "K CHR ''b''" plain_world] f g
    by simp
qed

section \<open>The command buffer\<close>

lemma down_64_32: "is_down (ucast :: 64 word \<Rightarrow> 32 word)"
  by (simp add: is_down)

lemma ucast_scast_32: "(ucast (scast (l :: 32 word) :: 64 word) :: 32 word) = l"
proof -
  have "(ucast (scast l :: 64 word) :: 32 word) = ucast (word_of_int (sint l) :: 64 word)"
    by (simp only: scast_eq)
  also have "\<dots> = word_of_int (sint l)"
    by (rule ucast_down_wi[OF down_64_32])
  finally show ?thesis by simp
qed

lemma ucast_scast_minus_1:
  "(ucast ((scast (l :: 32 word) :: 64 word) - 1) :: 32 word) = l - 1"
proof -
  have "(scast l :: 64 word) - 1 = word_of_int (sint l) - word_of_int 1"
    by (simp only: scast_eq word_1_wi [symmetric])
  also have "\<dots> = word_of_int (sint l - 1)"
    by (rule wi_hom_sub)
  finally have e: "(scast l :: 64 word) - 1 = word_of_int (sint l - 1)" .
  have "(ucast ((scast l :: 64 word) - 1) :: 32 word) = ucast (word_of_int (sint l - 1) :: 64 word)"
    by (simp only: e)
  also have "\<dots> = word_of_int (sint l - 1)"
    by (rule ucast_down_wi[OF down_64_32])
  also have "\<dots> = word_of_int (sint l) - word_of_int 1"
    by (rule wi_hom_sub [symmetric])
  also have "\<dots> = l - 1"
    by (simp only: word_1_wi [symmetric] scast_eq [symmetric] scast_id)
  finally show ?thesis .
qed

lemma scast_minus_pos: "(0 < (scast (l :: 32 word) :: 64 word) - 1) \<longleftrightarrow> l \<noteq> 1"
proof -
  have "(scast l :: 64 word) = 1 \<longleftrightarrow> l = 1"
  proof
    assume "(scast l :: 64 word) = 1"
    then have "(ucast (scast l :: 64 word) :: 32 word) = ucast (1 :: 64 word)" by simp
    then show "l = 1" by (simp add: ucast_scast_32)
  next
    assume "l = 1"
    then show "(scast l :: 64 word) = 1" by simp
  qed
  then show ?thesis by (simp add: word_gt_0)
qed

lemma abDelete_1: "abDelete ab 1 = (if len ab = 1 then ab else ab\<lparr>len := len ab - 1\<rparr>)"
  by (simp add: abDelete_def scast_minus_pos ucast_scast_minus_1)

lemmas run_simps = no_file_24_def initEditor_def editorSetStatusMsg_def editorScroll_def
  editorProcessKeypress_def normal_mode_key_def counts_digit_def normal_switch_def ctrl_keys
  command_mode_key_def leave_command_def editorCommandModeHandle_def quit_loop.simps cmd_byte_def
  abFree_def abAppend_def abDelete_1 isprint_def c_string_def editorExit_def Let_def
  char_of_eq_iff

lemma colon_state:
  "main_loop plain_world [K CHR '':''] no_file_24
     = Continue (no_file_24\<lparr>mode := COMMAND_MODE, statusmsg := '':''\<rparr>)"
  by (simp add: run_simps)

lemma colon_x_enter:
  "main_loop plain_world [K CHR '':'', K CHR ''x'', 13] no_file_24
     = Continue (no_file_24\<lparr>cmdbuf := \<lparr>b = Freed, len = 0\<rparr>, statusmsg := []\<rparr>)"
  by (simp add: run_simps)

lemma colon_q_enter:
  "main_loop plain_world [K CHR '':'', K CHR ''q'', 13] no_file_24 = editorExit"
  by (simp add: run_simps)

lemma colon_wq_enter:
  "main_loop plain_world [K CHR '':'', K CHR ''w'', K CHR ''q'', 13] no_file_24 = editorExit"
  by (simp add: run_simps)

lemma second_command:
  "main_loop plain_world [K CHR '':'', K CHR ''x'', 13, K CHR '':'', 13] no_file_24 = Undefined"
  by (simp add: run_simps)

lemma second_command_char:
  "main_loop plain_world [K CHR '':'', K CHR ''x'', 13, K CHR '':'', K CHR ''y''] no_file_24 = Undefined"
  by (simp add: run_simps)

lemma delete_empty:
  "main_loop plain_world [K CHR '':'', K CHR ''8''] no_file_24
     = Continue (no_file_24\<lparr>mode := COMMAND_MODE, statusmsg := '':'',
         cmdbuf := \<lparr>b = Null, len = - 1\<rparr>\<rparr>)"
  by (simp add: run_simps)

lemma delete_single:
  "main_loop plain_world [K CHR '':'', K CHR ''x'', K CHR ''8''] no_file_24
     = Continue (no_file_24\<lparr>mode := COMMAND_MODE, statusmsg := '':x'',
         cmdbuf := \<lparr>b = Live ''x'', len = 1\<rparr>\<rparr>)"
  by (simp add: run_simps)

lemma delete_two:
  "main_loop plain_world [K CHR '':'', K CHR ''a'', K CHR ''b'', K CHR ''8''] no_file_24
     = Continue (no_file_24\<lparr>mode := COMMAND_MODE, statusmsg := '':ab'',
         cmdbuf := \<lparr>b = Live ''ab'', len = 1\<rparr>\<rparr>)"
  by (simp add: run_simps)

lemma append_after_delete:
  "main_loop plain_world [K CHR '':'', K CHR ''a'', K CHR ''b'', K CHR ''8'', K CHR ''c''] no_file_24
     = Continue (no_file_24\<lparr>mode := COMMAND_MODE, statusmsg := '':ac'',
         cmdbuf := \<lparr>b = Live ''ac'', len = 2\<rparr>\<rparr>)"
  by (simp add: run_simps)

lemma quit_loop_live:
  "b ab = Live xs \<Longrightarrow> 0 \<le> j \<Longrightarrow> sint (len ab) \<le> int (length xs) \<Longrightarrow>
   quit_loop ab j q = Some (q \<or> CHR ''q'' \<in> set (drop (nat j) (take (nat (sint (len ab))) xs)))"
proof (induction ab j q rule: quit_loop.induct)
  case (1 ab j quit)
  show ?case
  proof (cases "j < sint (len ab)")
    case False
    then show ?thesis by (simp add: quit_loop.simps)
  next
    case True
    with 1(2-4) have cb: "cmd_byte ab j = Some (xs ! nat j)"
      by (simp add: cmd_byte_def)
    have nj: "nat j < length (take (nat (sint (len ab))) xs)" using 1(2-4) True by simp
    have d: "drop (nat j) (take (nat (sint (len ab))) xs) =
        xs ! nat j # drop (nat (j + 1)) (take (nat (sint (len ab))) xs)"
      using Cons_nth_drop_Suc[OF nj] 1(3) True by (simp add: nat_add_distrib)
    from 1(1)[OF True cb 1(2) _ 1(4)] 1(3)
    have IH: "quit_loop ab (j + 1) (if xs ! nat j = CHR ''q'' then True else quit) =
      Some ((if xs ! nat j = CHR ''q'' then True else quit)
        \<or> CHR ''q'' \<in> set (drop (nat (j + 1)) (take (nat (sint (len ab))) xs)))"
      by simp
    show ?thesis
      unfolding d using True cb IH by (subst quit_loop.simps) auto
  qed
qed

lemma quit_loop_ok:
  assumes "buffer_ok ab"
  shows "quit_loop ab 0 False = Some (CHR ''q'' \<in> set (contents ab))"
proof (cases "b ab")
  case Null
  with assms show ?thesis by (simp add: buffer_ok_def contents_def quit_loop.simps)
next
  case (Live xs)
  with assms quit_loop_live[of ab xs 0 False] show ?thesis
    by (simp add: buffer_ok_def contents_def)
next
  case Freed
  with assms show ?thesis by (simp add: buffer_ok_def)
qed

lemma enter_ok:
  assumes m: "mode E = COMMAND_MODE" and ok: "buffer_ok (cmdbuf E)"
  shows "editorProcessKeypress w 13 E =
     (if CHR ''q'' \<in> set (contents (cmdbuf E)) then editorExit
      else Continue (E\<lparr>mode := NORMAL_MODE, statusmsg := [],
             cmdbuf := \<lparr>b = (case b (cmdbuf E) of Null \<Rightarrow> Null | _ \<Rightarrow> Freed), len = 0\<rparr>\<rparr>))"
proof -
  from ok have nf: "b (cmdbuf E) \<noteq> Freed" by (auto simp add: buffer_ok_def)
  show ?thesis
    using m quit_loop_ok[OF ok] nf
    by (cases "b (cmdbuf E)")
      (simp_all add: editorProcessKeypress_def command_mode_key_def editorCommandModeHandle_def
        leave_command_def abFree_def editorSetStatusMsg_def editorExit_def)
qed

lemma enter_freed:
  assumes m: "mode E = COMMAND_MODE" and f: "b (cmdbuf E) = Freed" and l: "len (cmdbuf E) = 0"
  shows "editorProcessKeypress w 13 E = Undefined"
  using assms
  by (simp add: editorProcessKeypress_def command_mode_key_def editorCommandModeHandle_def
      leave_command_def abFree_def quit_loop.simps)

lemma printable_ok:
  assumes m: "mode E = COMMAND_MODE" and ok: "buffer_ok (cmdbuf E)"
    and p: "isprint c = Some True" and n8: "c \<noteq> K CHR ''8''" and a: "realloc_ok w"
  shows "editorProcessKeypress w c E =
     Continue (E\<lparr>cmdbuf := \<lparr>b = Live (contents (cmdbuf E) @ [char_of c]), len = len (cmdbuf E) + 1\<rparr>,
        statusmsg := take 79 (CHR '':'' #
          takeWhile (\<lambda>ch. ch \<noteq> NUL) (contents (cmdbuf E) @ [char_of c] @ after_block w))\<rparr>)"
proof -
  from p have c: "c \<noteq> 13" "c \<noteq> K ESC" by (auto simp add: isprint_def split: if_splits)
  from ok have ap: "abAppend True (cmdbuf E) [char_of c] =
      Some \<lparr>b = Live (contents (cmdbuf E) @ [char_of c]), len = len (cmdbuf E) + 1\<rparr>"
    by (cases "b (cmdbuf E)") (simp_all add: buffer_ok_def contents_def abAppend_def)
  show ?thesis
    using m c n8 p a ap
    by (simp add: editorProcessKeypress_def command_mode_key_def c_string_def editorSetStatusMsg_def)
qed

lemma two_chars:
  "main_loop plain_world [K CHR '':'', K CHR ''a'', K CHR ''b''] no_file_24
     = Continue (no_file_24\<lparr>mode := COMMAND_MODE, statusmsg := '':ab'',
         cmdbuf := \<lparr>b = Live ''ab'', len = 2\<rparr>\<rparr>)"
  by (simp add: run_simps)

lemma command_start_facts:
  "mode command_start = COMMAND_MODE" "buffer_ok (cmdbuf command_start)"
  "contents (cmdbuf command_start) = []" "b (cmdbuf command_start) = Null"
  "len (cmdbuf command_start) = 0"
  by (simp_all add: command_start_def no_file_24_def initEditor_def editorSetStatusMsg_def
      buffer_ok_def contents_def)

lemma delete_key_step:
  "mode E = COMMAND_MODE \<Longrightarrow>
   editorProcessKeypress w (K CHR ''8'') E = Continue (E\<lparr>cmdbuf := abDelete (cmdbuf E) 1\<rparr>)"
  by (simp add: editorProcessKeypress_def command_mode_key_def)

text \<open>
  C6. Enter in Command mode, with the command buffer as \<open>abAppend\<close> leaves it: when
  the buffer holds a \<open>q\<close> the process ends through \<open>editorExit\<close> (the two
  screen-clearing sequences, status 0); otherwise the next state is in Normal mode
  with buffer length 0 and an empty status message. \<open>:q\<close> Enter ends the process,
  \<open>:x\<close> Enter returns to Normal mode. \<open>abFree\<close> leaves the pointer of the block it
  frees in the buffer: a second Enter, \<open>:x\<close> Enter \<open>:\<close> Enter, frees that block
  again, which C does not define.
\<close>

theorem enter_in_command_mode:
  "(mode E = COMMAND_MODE \<longrightarrow> buffer_ok (cmdbuf E) \<longrightarrow>
      editorProcessKeypress w 13 E =
        (if CHR ''q'' \<in> set (contents (cmdbuf E)) then editorExit
         else Continue (E\<lparr>mode := NORMAL_MODE, statusmsg := [],
                cmdbuf := \<lparr>b = (case b (cmdbuf E) of Null \<Rightarrow> Null | _ \<Rightarrow> Freed), len = 0\<rparr>\<rparr>)))
   \<and> editorExit = Exited ([ESC] @ ''[2J'' @ [ESC] @ ''[H'') 0
   \<and> main_loop plain_world [K CHR '':'', K CHR ''q'', 13] no_file_24 = editorExit
   \<and> main_loop plain_world [K CHR '':'', K CHR ''x'', 13] no_file_24
       = Continue (no_file_24\<lparr>cmdbuf := \<lparr>b = Freed, len = 0\<rparr>, statusmsg := []\<rparr>)
   \<and> mode (no_file_24\<lparr>cmdbuf := \<lparr>b = Freed, len = 0\<rparr>, statusmsg := []\<rparr>) = NORMAL_MODE
   \<and> (mode E = COMMAND_MODE \<longrightarrow> b (cmdbuf E) = Freed \<longrightarrow> len (cmdbuf E) = 0 \<longrightarrow>
        editorProcessKeypress w 13 E = Undefined)
   \<and> main_loop plain_world [K CHR '':'', K CHR ''x'', 13, K CHR '':'', 13] no_file_24 = Undefined"
proof -
  have n: "mode (no_file_24\<lparr>cmdbuf := \<lparr>b = Freed, len = 0\<rparr>, statusmsg := []\<rparr>) = NORMAL_MODE"
    by (simp add: no_file_24_def initEditor_def editorSetStatusMsg_def)
  show ?thesis
    using enter_ok[of E w] enter_freed[of E w] editorExit_def colon_q_enter colon_x_enter
      second_command n
    by blast
qed

theorem enter_in_command_mode_witness:
  "mode command_start = COMMAND_MODE \<and> buffer_ok (cmdbuf command_start)
   \<and> CHR ''q'' \<notin> set (contents (cmdbuf command_start))
   \<and> editorProcessKeypress plain_world 13 command_start
       = Continue (command_start\<lparr>mode := NORMAL_MODE, statusmsg := [],
           cmdbuf := \<lparr>b = Null, len = 0\<rparr>\<rparr>)
   \<and> mode (command_start\<lparr>cmdbuf := \<lparr>b = Freed, len = 0\<rparr>\<rparr>) = COMMAND_MODE
   \<and> b (cmdbuf (command_start\<lparr>cmdbuf := \<lparr>b = Freed, len = 0\<rparr>\<rparr>)) = Freed
   \<and> len (cmdbuf (command_start\<lparr>cmdbuf := \<lparr>b = Freed, len = 0\<rparr>\<rparr>)) = 0
   \<and> editorProcessKeypress plain_world 13 (command_start\<lparr>cmdbuf := \<lparr>b = Freed, len = 0\<rparr>\<rparr>)
       = Undefined"
proof -
  have f: "mode (command_start\<lparr>cmdbuf := \<lparr>b = Freed, len = 0\<rparr>\<rparr>) = COMMAND_MODE"
    "b (cmdbuf (command_start\<lparr>cmdbuf := \<lparr>b = Freed, len = 0\<rparr>\<rparr>)) = Freed"
    "len (cmdbuf (command_start\<lparr>cmdbuf := \<lparr>b = Freed, len = 0\<rparr>\<rparr>)) = 0"
    by (simp_all add: command_start_facts)
  show ?thesis
    using enter_in_command_mode [of command_start plain_world]
      enter_in_command_mode [of "command_start\<lparr>cmdbuf := \<lparr>b = Freed, len = 0\<rparr>\<rparr>" plain_world]
      command_start_facts f
    by simp
qed

text \<open>
  C7. The key \<open>8\<close> in Command mode calls \<open>abDelete\<close> with 1. Its test is made in
  \<^verbatim>\<open>size_t\<close>, where \<open>len - 1 > 0\<close> holds for every length but 1: a buffer of one byte
  keeps its byte, and an empty buffer gets the length \<open>-1\<close>. From a length of 2 on
  the length decreases by one.
\<close>

theorem delete_key_length:
  "abDelete ab 1 = (if len ab = 1 then ab else ab\<lparr>len := len ab - 1\<rparr>)
   \<and> (mode E = COMMAND_MODE \<longrightarrow>
        editorProcessKeypress w (K CHR ''8'') E = Continue (E\<lparr>cmdbuf := abDelete (cmdbuf E) 1\<rparr>))
   \<and> main_loop plain_world [K CHR '':'', K CHR ''8''] no_file_24
       = Continue (no_file_24\<lparr>mode := COMMAND_MODE, statusmsg := '':'',
           cmdbuf := \<lparr>b = Null, len = - 1\<rparr>\<rparr>)
   \<and> sint (- 1 :: 32 word) = - 1
   \<and> main_loop plain_world [K CHR '':'', K CHR ''x'', K CHR ''8''] no_file_24
       = Continue (no_file_24\<lparr>mode := COMMAND_MODE, statusmsg := '':x'',
           cmdbuf := \<lparr>b = Live ''x'', len = 1\<rparr>\<rparr>)
   \<and> main_loop plain_world [K CHR '':'', K CHR ''a'', K CHR ''b'', K CHR ''8''] no_file_24
       = Continue (no_file_24\<lparr>mode := COMMAND_MODE, statusmsg := '':ab'',
           cmdbuf := \<lparr>b = Live ''ab'', len = 1\<rparr>\<rparr>)"
proof -
  have s: "sint (- 1 :: 32 word) = - 1" by simp
  show ?thesis
    using abDelete_1[of ab] delete_key_step[of E w] delete_empty delete_single delete_two s
    by blast
qed

theorem delete_key_length_witness:
  "mode command_start = COMMAND_MODE
   \<and> editorProcessKeypress plain_world (K CHR ''8'') command_start
       = Continue (command_start\<lparr>cmdbuf := \<lparr>b = Null, len = - 1\<rparr>\<rparr>)"
proof -
  have a: "abDelete (cmdbuf command_start) 1 = \<lparr>b = Null, len = - 1\<rparr>"
    by (simp add: abDelete_1 command_start_def no_file_24_def initEditor_def editorSetStatusMsg_def)
  show ?thesis
    using delete_key_length [of "cmdbuf command_start" command_start plain_world]
      command_start_facts(1) a
    by simp
qed

text \<open>
  C8. A printable key other than \<open>8\<close> in Command mode, with the buffer as \<open>abAppend\<close>
  leaves it and an allocator that succeeds, is appended to the buffer; the status
  message becomes \<open>:\<close> and the bytes that \<^verbatim>\<open>%s\<close> finds at the block (the buffer, then
  what follows it in memory up to a NUL), cut to 79 bytes; the mode stays. The
  printable key \<open>8\<close> is not appended: \<open>:ab8\<close> leaves the block \<open>ab\<close> with length 1
  and the message \<open>:ab\<close>. After a command has been run the block is freed, and a
  printable key hands the freed block to \<^verbatim>\<open>realloc\<close>.
\<close>

theorem printable_in_command_mode:
  "(mode E = COMMAND_MODE \<longrightarrow> buffer_ok (cmdbuf E) \<longrightarrow> isprint c = Some True \<longrightarrow>
      c \<noteq> K CHR ''8'' \<longrightarrow> realloc_ok w \<longrightarrow>
      editorProcessKeypress w c E =
        Continue (E\<lparr>cmdbuf := \<lparr>b = Live (contents (cmdbuf E) @ [char_of c]),
                               len = len (cmdbuf E) + 1\<rparr>,
           statusmsg := take 79 (CHR '':'' #
             takeWhile (\<lambda>ch. ch \<noteq> NUL) (contents (cmdbuf E) @ [char_of c] @ after_block w))\<rparr>))
   \<and> main_loop plain_world [K CHR '':'', K CHR ''a'', K CHR ''b''] no_file_24
       = Continue (no_file_24\<lparr>mode := COMMAND_MODE, statusmsg := '':ab'',
           cmdbuf := \<lparr>b = Live ''ab'', len = 2\<rparr>\<rparr>)
   \<and> isprint (K CHR ''8'') = Some True
   \<and> main_loop plain_world [K CHR '':'', K CHR ''a'', K CHR ''b'', K CHR ''8''] no_file_24
       = Continue (no_file_24\<lparr>mode := COMMAND_MODE, statusmsg := '':ab'',
           cmdbuf := \<lparr>b = Live ''ab'', len = 1\<rparr>\<rparr>)
   \<and> main_loop plain_world [K CHR '':'', K CHR ''x'', 13, K CHR '':'', K CHR ''y''] no_file_24
       = Undefined"
proof -
  have p: "isprint (K CHR ''8'') = Some True" by (simp add: isprint_def)
  show ?thesis
    using printable_ok[of E c w] two_chars p delete_two second_command_char
    by blast
qed

theorem printable_in_command_mode_witness:
  "mode command_start = COMMAND_MODE \<and> buffer_ok (cmdbuf command_start)
   \<and> isprint (K CHR ''x'') = Some True \<and> K CHR ''x'' \<noteq> K CHR ''8'' \<and> realloc_ok plain_world
   \<and> editorProcessKeypress plain_world (K CHR ''x'') command_start
       = Continue (command_start\<lparr>cmdbuf := \<lparr>b = Live ''x'', len = 1\<rparr>, statusmsg := '':x''\<rparr>)"
proof -
  have p: "isprint (K CHR ''x'') = Some True" "K CHR ''x'' \<noteq> K CHR ''8''" "realloc_ok plain_world"
    by (simp_all add: isprint_def)
  show ?thesis
    using printable_in_command_mode [of command_start "K CHR ''x''" plain_world]
      command_start_facts p
    by (simp add: char_of_eq_iff)
qed

end
